theory Spec2Isabelle
  imports Main "HOL-Library.Char_ord" "HOL-Library.List_Lexorder" "HOL-Library.Product_Lexorder"
begin

section \<open>Data model\<close>

text \<open>
  The pipeline of \<^verbatim>\<open>src/main.py\<close> works on pandas data frames whose brand, super-group
  and owner columns hold text (columns of dtype \<^verbatim>\<open>object\<close>). A cell is a Python \<^verbatim>\<open>str\<close> or a missing value (pandas'
  \<^verbatim>\<open>NaN\<close> and \<^verbatim>\<open>None\<close>, which \<^verbatim>\<open>pd.isna\<close> does not tell apart). A character is a
  code point below 256. A column is the list of its cells, a frame the list of its labelled
  columns in order (labels may repeat, as pandas allows), a row the list of its labelled cells.
\<close>

datatype cell = Null | Str string

text \<open>
  The exceptions the pipeline can raise: \<^verbatim>\<open>KeyError\<close> with its message (a label that is not
  there, or the explicit \<^verbatim>\<open>raise\<close> of \<^verbatim>\<open>split_brand_columns\<close>); the \<^verbatim>\<open>ValueError\<close> of
  assigning a list of labels of the wrong length to \<^verbatim>\<open>columns\<close>; and the failure of a column
  operation on a label that names several columns (\<^verbatim>\<open>AttributeError\<close> for \<^verbatim>\<open>.str\<close>,
  \<^verbatim>\<open>ValueError\<close> for a truth value).
\<close>

datatype error = KeyError string | LengthMismatch | NotAColumn

type_synonym series = "cell list"
type_synonym frame = "(string \<times> series) list"
type_synonym row = "(string \<times> cell) list"

definition ebind :: "error + 'a \<Rightarrow> ('a \<Rightarrow> error + 'b) \<Rightarrow> error + 'b" where
  "ebind m f = (case m of Inl e \<Rightarrow> Inl e | Inr x \<Rightarrow> f x)"

definition isna :: "cell \<Rightarrow> bool" where
  "isna v = (case v of Null \<Rightarrow> True | Str _ \<Rightarrow> False)"

section \<open>Python string primitives\<close>

text \<open>\<^verbatim>\<open>str.isspace\<close> on one character, which is also the class \<^verbatim>\<open>\s\<close> of \<^verbatim>\<open>re\<close>.\<close>

definition isspace :: "char \<Rightarrow> bool" where
  "isspace c = (of_char c \<in> {9, 10, 11, 12, 13, 28, 29, 30, 31, 32, 133, 160 :: nat})"

text \<open>\<^verbatim>\<open>s.split(sep)\<close> for a one-character separator: never empty, \<^verbatim>\<open>''.split(';') == ['']\<close>.\<close>

fun split_on :: "char \<Rightarrow> string \<Rightarrow> string list" where
  "split_on sep [] = [[]]"
| "split_on sep (c # cs) =
     (if c = sep then [] # split_on sep cs
      else (case split_on sep cs of [] \<Rightarrow> [[c]] | t # ts \<Rightarrow> (c # t) # ts))"

text \<open>\<^verbatim>\<open>sep.join(parts)\<close>.\<close>

fun join_with :: "char \<Rightarrow> string list \<Rightarrow> string" where
  "join_with sep [] = []"
| "join_with sep [t] = t"
| "join_with sep (t # ts) = t @ sep # join_with sep ts"

text \<open>\<^verbatim>\<open>s.strip()\<close>: whitespace removed at both ends.\<close>

definition strip :: "string \<Rightarrow> string" where
  "strip s = rev (dropWhile isspace (rev (dropWhile isspace s)))"

text \<open>\<^verbatim>\<open>s.startswith(p)\<close>.\<close>

fun startswith :: "string \<Rightarrow> string \<Rightarrow> bool" where
  "startswith s [] = True"
| "startswith [] (p # ps) = False"
| "startswith (c # cs) (p # ps) = (c = p \<and> startswith cs ps)"

section \<open>Frames\<close>

text \<open>\<^verbatim>\<open>label in df.columns\<close>.\<close>

definition has_column :: "string \<Rightarrow> frame \<Rightarrow> bool" where
  "has_column c df = (c \<in> set (map fst df))"

text \<open>
  \<^verbatim>\<open>df[label]\<close> read as one column: \<^verbatim>\<open>KeyError\<close> when the label is absent; when the label
  repeats pandas hands back a frame, on which the column operations of the pipeline fail.
\<close>

definition getitem :: "frame \<Rightarrow> string \<Rightarrow> error + series" where
  "getitem df c =
     (case filter (\<lambda>p. fst p = c) df of
        [] \<Rightarrow> Inl (KeyError c)
      | [p] \<Rightarrow> Inr (snd p)
      | _ \<Rightarrow> Inl NotAColumn)"

text \<open>\<^verbatim>\<open>df[label] = column\<close>: overwrites in place, or appends a new last column.\<close>

definition setitem :: "frame \<Rightarrow> string \<Rightarrow> series \<Rightarrow> frame" where
  "setitem df c s =
     (if has_column c df then map (\<lambda>p. if fst p = c then (c, s) else p) df
      else df @ [(c, s)])"

text \<open>The rows of a frame, as \<^verbatim>\<open>df.apply(f, axis=1)\<close> visits them.\<close>

definition nrows :: "frame \<Rightarrow> nat" where
  "nrows df = (case df of [] \<Rightarrow> 0 | p # _ \<Rightarrow> length (snd p))"

definition rows_of :: "frame \<Rightarrow> row list" where
  "rows_of df = map (\<lambda>i. map (\<lambda>p. (fst p, snd p ! i)) df) [0..<nrows df]"

text \<open>
  \<^verbatim>\<open>row.get(label)\<close>: the cell, \<^verbatim>\<open>None\<close> when the label is absent. Under a repeated label
  it is a column, whose truth value the caller's \<^verbatim>\<open>or\<close> / \<^verbatim>\<open>if\<close> refuses.
\<close>

definition row_get :: "row \<Rightarrow> string \<Rightarrow> error + cell" where
  "row_get r k =
     (case filter (\<lambda>p. fst p = k) r of
        [] \<Rightarrow> Inr Null
      | [p] \<Rightarrow> Inr (snd p)
      | _ \<Rightarrow> Inl NotAColumn)"

section \<open>Column Splitter\<close>

text \<open>
  \<^verbatim>\<open>Series.str.split(';', expand=True)\<close>: each string gives the list of its tokens, a missing
  value a lone missing cell; the result has as many columns as the longest list (none when
  there are no rows) and shorter lists are filled up with missing cells.
\<close>

definition cons_row :: "cell \<Rightarrow> cell list" where
  "cons_row v = (case v of Null \<Rightarrow> [Null] | Str s \<Rightarrow> map Str (split_on CHR '';'' s))"

definition max_len :: "cell list list \<Rightarrow> nat" where
  "max_len rs = foldr (\<lambda>r n. max (length r) n) rs 0"

definition pad_row :: "nat \<Rightarrow> cell list \<Rightarrow> cell list" where
  "pad_row n r = r @ replicate (n - length r) Null"

definition str_split_expand :: "series \<Rightarrow> series list" where
  "str_split_expand col =
     (let rs = map cons_row col; n = max_len rs
      in map (\<lambda>j. map (\<lambda>r. pad_row n r ! j) rs) [0..<n])"

text \<open>\<^verbatim>\<open>frame.columns = labels\<close> raises unless there is one label for each column.\<close>

definition set_columns :: "series list \<Rightarrow> string list \<Rightarrow> error + frame" where
  "set_columns cols labels =
     (if length cols \<noteq> length labels then Inl LengthMismatch else Inr (zip labels cols))"

definition split_brand_columns :: "frame \<Rightarrow> error + frame" where
  "split_brand_columns df =
     (if has_column ''BRAND_VALIDATED'' df then
        ebind (getitem df ''BRAND_VALIDATED'') (\<lambda>col.
        ebind (set_columns (str_split_expand col)
                 [''BOI_VALIDATED'', ''BRAND1_VALIDATED'', ''GBE_VALIDATED'']) (\<lambda>brand_split.
        Inr (df @ brand_split)))
      else if has_column ''BRAND_1'' df then
        ebind (getitem df ''BRAND_1'') (\<lambda>col. Inr (setitem df ''BRAND1_VALIDATED'' col))
      else Inl (KeyError ''Neither 'BRAND_VALIDATED' nor 'BRAND_1' found in DataFrame.''))"

section \<open>Key Builder\<close>

text \<open>
  \<^verbatim>\<open>.str.extract(r'^([^\[\(]+)')\<close>: the longest non-empty run of characters other than
  \<^verbatim>\<open>[\<close> and \<^verbatim>\<open>(\<close> at the start; missing when there is none or the cell is missing.
\<close>

definition str_extract :: "cell \<Rightarrow> cell" where
  "str_extract v =
     (case v of
        Null \<Rightarrow> Null
      | Str s \<Rightarrow>
          (let m = takeWhile (\<lambda>c. c \<noteq> CHR ''['' \<and> c \<noteq> CHR ''('') s
           in if m = [] then Null else Str m))"

text \<open>\<^verbatim>\<open>.astype(str)\<close> passes every cell through \<^verbatim>\<open>str()\<close>; \<^verbatim>\<open>str(float('nan'))\<close> is \<^verbatim>\<open>'nan'\<close>.\<close>

definition astype_str :: "cell \<Rightarrow> cell" where
  "astype_str v = (case v of Null \<Rightarrow> Str ''nan'' | Str s \<Rightarrow> Str s)"

text \<open>
  \<^verbatim>\<open>re.sub(r' +$', '', s)\<close>. \<^verbatim>\<open>$\<close> holds at the end of the string and also just before a
  newline that ends the string. A match is a whole run of spaces that reaches such a place;
  what follows it is empty or that newline, where no second match can start.
\<close>

definition at_dollar :: "string \<Rightarrow> bool" where
  "at_dollar rest = (rest = [] \<or> rest = [CHR 0x0A])"

fun re_sub_trailing_spaces :: "string \<Rightarrow> string" where
  "re_sub_trailing_spaces [] = []"
| "re_sub_trailing_spaces (c # cs) =
     (if c = CHR '' '' \<and> at_dollar (dropWhile (\<lambda>x. x = CHR '' '') cs)
      then dropWhile (\<lambda>x. x = CHR '' '') cs
      else c # re_sub_trailing_spaces cs)"

definition str_replace_trailing :: "cell \<Rightarrow> cell" where
  "str_replace_trailing v = (case v of Null \<Rightarrow> Null | Str s \<Rightarrow> Str (re_sub_trailing_spaces s))"

text \<open>\<^verbatim>\<open>column + " "\<close> and \<^verbatim>\<open>column + column\<close>: a missing operand gives a missing result.\<close>

definition add_str :: "cell \<Rightarrow> string \<Rightarrow> cell" where
  "add_str v t = (case v of Null \<Rightarrow> Null | Str s \<Rightarrow> Str (s @ t))"

definition add_cells :: "cell \<Rightarrow> cell \<Rightarrow> cell" where
  "add_cells v w = (case w of Null \<Rightarrow> Null | Str t \<Rightarrow> add_str v t)"

definition series_add :: "series \<Rightarrow> series \<Rightarrow> series" where
  "series_add a b = map (\<lambda>p. add_cells (fst p) (snd p)) (zip a b)"

definition clean_and_merge_supergroup :: "frame \<Rightarrow> error + frame" where
  "clean_and_merge_supergroup df =
     ebind (getitem df ''BRAND1_VALIDATED'') (\<lambda>brand.
     let df1 = setitem df ''BRAND_1_CLEAN'' (map (\<lambda>v. astype_str (str_extract v)) brand) in
     ebind (getitem df1 ''BRAND_1_CLEAN'') (\<lambda>clean.
     let df2 = setitem df1 ''BRAND_1_CLEAN'' (map str_replace_trailing clean) in
     if has_column ''SUPER_GROUP'' df2 then
       ebind (getitem df2 ''SUPER_GROUP'') (\<lambda>sg.
       ebind (getitem df2 ''BRAND_1_CLEAN'') (\<lambda>bc.
       Inr (setitem df2 ''SG_B1'' (series_add (map (\<lambda>v. add_str v '' '') sg) bc))))
     else if has_column ''SUPER_GROUP_DSCR'' df2 then
       ebind (getitem df2 ''SUPER_GROUP_DSCR'') (\<lambda>sg.
       ebind (getitem df2 ''BRAND_1_CLEAN'') (\<lambda>bc.
       Inr (setitem df2 ''SG_B1'' (series_add (map (\<lambda>v. add_str v '' '') sg) bc))))
     else Inr df2))"

section \<open>Ownership Suggester\<close>

text \<open>
  \<^verbatim>\<open>groupby([key, owner]).size().reset_index(name='count')\<close>: rows with a missing key or
  owner are left out (\<^verbatim>\<open>dropna=True\<close>), the distinct pairs come out in ascending order
  (\<^verbatim>\<open>sort=True\<close>), each with the number of its rows.
\<close>

definition both_present :: "cell \<times> cell \<Rightarrow> (string \<times> string) option" where
  "both_present p =
     (case fst p of Null \<Rightarrow> None
      | Str k \<Rightarrow> (case snd p of Null \<Rightarrow> None | Str ow \<Rightarrow> Some (k, ow)))"

definition valid_pairs :: "series \<Rightarrow> series \<Rightarrow> (string \<times> string) list" where
  "valid_pairs ks os = List.map_filter both_present (zip ks os)"

definition groupby_size :: "(string \<times> string) list \<Rightarrow> ((string \<times> string) \<times> nat) list" where
  "groupby_size prs = map (\<lambda>p. (p, count_list prs p)) (sort (remdups prs))"

text \<open>
  \<^verbatim>\<open>sort_values([key, 'count'], ascending=[True, False])\<close>: a stable sort, so rows equal in
  key and count keep the order they had.
\<close>

definition sort_values :: "((string \<times> string) \<times> nat) list \<Rightarrow> ((string \<times> string) \<times> nat) list" where
  "sort_values rs = sort_key (\<lambda>r. (fst (fst r), - int (snd r))) rs"

text \<open>\<^verbatim>\<open>drop_duplicates(subset=[key])\<close> keeps the first row of every key.\<close>

fun drop_duplicates :: "string list \<Rightarrow> ((string \<times> string) \<times> nat) list \<Rightarrow> ((string \<times> string) \<times> nat) list" where
  "drop_duplicates seen [] = []"
| "drop_duplicates seen (r # rs) =
     (if fst (fst r) \<in> set seen then drop_duplicates seen rs
      else r # drop_duplicates (fst (fst r) # seen) rs)"

definition generate_boi_suggest :: "frame \<Rightarrow> error + frame" where
  "generate_boi_suggest ogrds_df =
     ebind (getitem ogrds_df ''SG_B1'') (\<lambda>ks.
     ebind (getitem ogrds_df ''BRAND_OWNER_INTERNATIONAL'') (\<lambda>os.
     let firsts = drop_duplicates [] (sort_values (groupby_size (valid_pairs ks os)))
     in Inr [(''SG_B1'', map (\<lambda>r. Str (fst (fst r))) firsts),
             (''BOI_SUGGEST'', map (\<lambda>r. Str (snd (fst r))) firsts)]))"

section \<open>Suggestion Merger\<close>

text \<open>
  \<^verbatim>\<open>left.merge(right, on=key, how='left')\<close>. Every left row is paired, in order, with each
  right row of the same key (pandas also pairs a missing key with a missing key), or with
  nothing when there is none. The result has the left columns, then the right columns other
  than the key; a label on both sides gets the suffix \<^verbatim>\<open>_x\<close> on the left and \<^verbatim>\<open>_y\<close> on the
  right.
\<close>

definition join_index :: "series \<Rightarrow> series \<Rightarrow> (nat \<times> nat option) list" where
  "join_index lk rk =
     concat (map (\<lambda>i. case filter (\<lambda>j. rk ! j = lk ! i) [0..<length rk] of
                          [] \<Rightarrow> [(i, None)]
                        | js \<Rightarrow> map (\<lambda>j. (i, Some j)) js)
                 [0..<length lk])"

definition take_left :: "(nat \<times> nat option) list \<Rightarrow> series \<Rightarrow> series" where
  "take_left idx col = map (\<lambda>p. col ! fst p) idx"

definition take_right :: "(nat \<times> nat option) list \<Rightarrow> series \<Rightarrow> series" where
  "take_right idx col = map (\<lambda>p. case snd p of None \<Rightarrow> Null | Some j \<Rightarrow> col ! j) idx"

definition merge_left :: "frame \<Rightarrow> frame \<Rightarrow> string \<Rightarrow> error + frame" where
  "merge_left left right key =
     ebind (getitem left key) (\<lambda>lk.
     ebind (getitem right key) (\<lambda>rk.
     let idx = join_index lk rk;
         others = filter (\<lambda>p. fst p \<noteq> key) right;
         clash = (\<lambda>c. c \<noteq> key \<and> has_column c left \<and> has_column c others)
     in Inr (map (\<lambda>p. (if clash (fst p) then fst p @ ''_x'' else fst p, take_left idx (snd p))) left
             @ map (\<lambda>p. (if clash (fst p) then fst p @ ''_y'' else fst p, take_right idx (snd p))) others)))"

text \<open>\<^verbatim>\<open>column.fillna(value)\<close>.\<close>

definition fillna :: "string \<Rightarrow> cell \<Rightarrow> cell" where
  "fillna d v = (if isna v then Str d else v)"

definition merge_boi_suggest :: "frame \<Rightarrow> frame \<Rightarrow> error + frame" where
  "merge_boi_suggest eu_df boi_suggest_df =
     ebind (merge_left eu_df boi_suggest_df ''SG_B1'') (\<lambda>eu1.
     ebind (getitem eu1 ''BOI_SUGGEST'') (\<lambda>col.
     Inr (setitem eu1 ''BOI_SUGGEST'' (map (fillna ''SG_B1 not present in OGRDS'') col))))"

section \<open>Validation stage\<close>

text \<open>
  \<^verbatim>\<open>re.sub(r'([^\s])(\()', r'\1 (', part)\<close>: scanning from the left, each match (a
  non-whitespace character followed by an opening parenthesis) is replaced and the scan goes
  on behind the match, so matches never overlap.
\<close>

fun re_sub_paren :: "string \<Rightarrow> string" where
  "re_sub_paren (x # y # rest) =
     (if \<not> isspace x \<and> y = CHR ''(''
      then x # CHR '' '' # CHR ''('' # re_sub_paren rest
      else x # re_sub_paren (y # rest))"
| "re_sub_paren s = s"

definition fix_spacing :: "cell \<Rightarrow> cell" where
  "fix_spacing val =
     (if isna val then val
      else (case val of
              Null \<Rightarrow> Null
            | Str s \<Rightarrow>
                (let parts = split_on CHR '';'' s;
                     new_parts = map re_sub_paren parts
                 in Str (join_with CHR '';'' new_parts))))"

definition apply_spacing_fix :: "frame \<Rightarrow> error + frame" where
  "apply_spacing_fix df =
     ebind (getitem df ''BRAND_VALIDATED'')
       (\<lambda>col. Inr (setitem df ''BRAND_VALIDATED_FIXED'' (map fix_spacing col)))"

definition check_gbe_match :: "row \<Rightarrow> error + string" where
  "check_gbe_match r =
     ebind (row_get r ''BRAND1_VALIDATED'') (\<lambda>brand_fixed.
       case brand_fixed of
         Null \<Rightarrow> Inr ''Missing Data''
       | Str b \<Rightarrow>
           ebind (row_get r ''GBE_VALIDATED'') (\<lambda>gbe.
             case gbe of
               Null \<Rightarrow> Inr ''Missing Data''
             | Str g \<Rightarrow>
                 (let brand_clean = strip (hd (split_on CHR ''('' b))
                  in Inr (if startswith g brand_clean then ''Correct GBE''
                          else ''Incorrect GBE''))))"

text \<open>\<^verbatim>\<open>df.apply(check_gbe_match, axis=1)\<close> stops at the first row that raises.\<close>

fun apply_rows :: "(row \<Rightarrow> error + string) \<Rightarrow> row list \<Rightarrow> error + series" where
  "apply_rows f [] = Inr []"
| "apply_rows f (r # rs) =
     ebind (f r) (\<lambda>v. ebind (apply_rows f rs) (\<lambda>vs. Inr (Str v # vs)))"

definition apply_gbe_validation :: "frame \<Rightarrow> error + frame" where
  "apply_gbe_validation df =
     ebind (apply_rows check_gbe_match (rows_of df))
       (\<lambda>col. Inr (setitem df ''GBE_STATUS'' col))"

section \<open>The pipeline\<close>

definition process_pipeline :: "frame \<Rightarrow> frame \<Rightarrow> error + frame" where
  "process_pipeline eu_df ogrds_df =
     ebind (split_brand_columns eu_df) (\<lambda>eu1.
     ebind (split_brand_columns ogrds_df) (\<lambda>ogrds1.
     ebind (clean_and_merge_supergroup eu1) (\<lambda>eu2.
     ebind (clean_and_merge_supergroup ogrds1) (\<lambda>ogrds2.
     ebind (generate_boi_suggest ogrds2) (\<lambda>boi_suggest_df.
     ebind (merge_boi_suggest eu2 boi_suggest_df) (\<lambda>eu3.
     ebind (apply_spacing_fix eu3) (\<lambda>eu4.
     apply_gbe_validation eu4)))))))"

section \<open>Notions used to state the properties\<close>

text \<open>Two opening parentheses side by side somewhere in the string.\<close>

fun adjacent_parens :: "string \<Rightarrow> bool" where
  "adjacent_parens (x # y # rest) =
     ((x = CHR ''('' \<and> y = CHR ''('') \<or> adjacent_parens (y # rest))"
| "adjacent_parens s = False"

text \<open>An opening parenthesis right behind a character that is not whitespace.\<close>

fun unspaced_paren :: "string \<Rightarrow> bool" where
  "unspaced_paren (x # y # rest) =
     ((\<not> isspace x \<and> y = CHR ''('') \<or> unspaced_paren (y # rest))"
| "unspaced_paren s = False"

text \<open>
  The Spacing Fix as the specification words it for one token: a single space goes before
  every \<^verbatim>\<open>(\<close> that follows a character that is not whitespace.
\<close>

fun spec_space_before_parens :: "string \<Rightarrow> string" where
  "spec_space_before_parens (x # y # rest) =
     (if \<not> isspace x \<and> y = CHR ''(''
      then x # CHR '' '' # spec_space_before_parens (y # rest)
      else x # spec_space_before_parens (y # rest))"
| "spec_space_before_parens s = s"

text \<open>The number of tokens of a value between semicolons; a missing value has none.\<close>

definition token_count :: "cell \<Rightarrow> nat" where
  "token_count v = (case v of Null \<Rightarrow> 0 | Str s \<Rightarrow> length (split_on CHR '';'' s))"

text \<open>The token at a position, missing when the value is missing or has no such token.\<close>

definition positional_part :: "nat \<Rightarrow> cell \<Rightarrow> cell" where
  "positional_part j v =
     (case v of
        Null \<Rightarrow> Null
      | Str s \<Rightarrow> (let ts = split_on CHR '';'' s in if j < length ts then Str (ts ! j) else Null))"

text \<open>What stands before the first \<^verbatim>\<open>[\<close> or \<^verbatim>\<open>(\<close>; the whole string when there is neither.\<close>

definition leading_run :: "string \<Rightarrow> string" where
  "leading_run s = takeWhile (\<lambda>c. c \<noteq> CHR ''['' \<and> c \<noteq> CHR ''('') s"

text \<open>The string without the spaces at its end.\<close>

definition rstrip_spaces :: "string \<Rightarrow> string" where
  "rstrip_spaces s = rev (dropWhile (\<lambda>c. c = CHR '' '') (rev s))"

text \<open>
  Stripping trailing spaces as the Key Builder does it: when the string ends with a newline,
  the newline stays and the spaces before it go.
\<close>

definition spec_strip_trailing :: "string \<Rightarrow> string" where
  "spec_strip_trailing s =
     (if s \<noteq> [] \<and> last s = CHR 0x0A then rstrip_spaces (butlast s) @ [CHR 0x0A]
      else rstrip_spaces s)"

text \<open>
  The cleaned brand name of one cell: the text \<^verbatim>\<open>nan\<close> when the brand name is missing or
  has an empty leading run, else the leading run with its trailing spaces stripped.
\<close>

definition spec_cleaned_brand :: "cell \<Rightarrow> cell" where
  "spec_cleaned_brand v =
     (case v of
        Null \<Rightarrow> Str ''nan''
      | Str s \<Rightarrow>
          if leading_run s = [] then Str ''nan''
          else Str (spec_strip_trailing (leading_run s)))"


text \<open>
  The end-to-end example: a primary table with \<^verbatim>\<open>SUPER_GROUP\<close> and \<^verbatim>\<open>BRAND_1\<close> only, a
  reference table with \<^verbatim>\<open>SUPER_GROUP\<close>, \<^verbatim>\<open>BRAND_VALIDATED\<close> and the owner column that the
  Ownership Suggester reads, and the primary table as it leaves the Suggestion Merger.
\<close>

definition example_eu :: frame where
  "example_eu = [(''SUPER_GROUP'', [Str ''EMEA'']), (''BRAND_1'', [Str ''Acme''])]"

definition example_ogrds :: frame where
  "example_ogrds =
     [(''SUPER_GROUP'', [Str ''EMEA'']), (''BRAND_VALIDATED'', [Str ''O1;Acme;Acme Europe'']),
      (''BRAND_OWNER_INTERNATIONAL'', [Str ''O1''])]"

definition example_merged :: frame where
  "example_merged =
     [(''SUPER_GROUP'', [Str ''EMEA'']), (''BRAND_1'', [Str ''Acme'']),
      (''BRAND1_VALIDATED'', [Str ''Acme'']), (''BRAND_1_CLEAN'', [Str ''Acme'']),
      (''SG_B1'', [Str ''EMEA Acme'']), (''BOI_SUGGEST'', [Str ''O1''])]"

section \<open>String lemmas\<close>

lemma split_on_not_Nil: "split_on sep s \<noteq> []"
  by (induction s) (auto split: list.splits)

lemma hd_split_on: "hd (split_on sep s) = takeWhile (\<lambda>c. c \<noteq> sep) s"
  using split_on_not_Nil [of sep]
  by (induction s) (auto split: list.splits)

lemma startswith_iff: "startswith s p \<longleftrightarrow> (\<exists>rest. s = p @ rest)"
  by (induction s p rule: startswith.induct) auto

section \<open>The GBE consistency check\<close>

lemma check_gbe_match_strings:
  assumes "row_get r ''BRAND1_VALIDATED'' = Inr (Str b)"
      and "row_get r ''GBE_VALIDATED'' = Inr (Str g)"
  shows "check_gbe_match r =
           Inr (if startswith g (strip (takeWhile (\<lambda>c. c \<noteq> CHR ''('') b))
                then ''Correct GBE'' else ''Incorrect GBE'')"
  using assms by (simp add: check_gbe_match_def ebind_def hd_split_on)

text \<open>
  Claim C7. For a row whose brand-name and group-entity fields each are one cell, the GBE
  consistency check answers \<^verbatim>\<open>Missing Data\<close> when either cell is missing; otherwise
  \<^verbatim>\<open>Correct GBE\<close> when the group-entity string starts with what precedes the first
  \<^verbatim>\<open>(\<close> of the brand name, stripped of surrounding whitespace; otherwise
  \<^verbatim>\<open>Incorrect GBE\<close>.
\<close>

theorem check_gbe_match_classification:
  assumes "row_get r ''BRAND1_VALIDATED'' = Inr brand"
      and "row_get r ''GBE_VALIDATED'' = Inr gbe"
  shows "(brand = Null \<or> gbe = Null \<longrightarrow> check_gbe_match r = Inr ''Missing Data'') \<and>
         (\<forall>b g. brand = Str b \<and> gbe = Str g \<longrightarrow>
            check_gbe_match r =
              Inr (if \<exists>rest. g = strip (takeWhile (\<lambda>c. c \<noteq> CHR ''('') b) @ rest
                   then ''Correct GBE'' else ''Incorrect GBE''))"
proof (intro conjI impI allI)
  assume "brand = Null \<or> gbe = Null"
  with assms show "check_gbe_match r = Inr ''Missing Data''"
    by (cases brand) (auto simp: check_gbe_match_def ebind_def)
next
  fix b g
  assume "brand = Str b \<and> gbe = Str g"
  with assms show "check_gbe_match r =
      Inr (if \<exists>rest. g = strip (takeWhile (\<lambda>c. c \<noteq> CHR ''('') b) @ rest
           then ''Correct GBE'' else ''Incorrect GBE'')"
    by (simp add: check_gbe_match_strings startswith_iff)
qed

lemma strip_Acme: "strip ''Acme '' = ''Acme''"
  by (simp add: strip_def isspace_def)

theorem check_gbe_match_classification_witness:
  "check_gbe_match [(''BRAND1_VALIDATED'', Str ''Acme (X)''), (''GBE_VALIDATED'', Str ''Acme Europe'')]
     = Inr ''Correct GBE'' \<and>
   check_gbe_match [(''BRAND1_VALIDATED'', Str ''Acme (X)''), (''GBE_VALIDATED'', Str ''Other'')]
     = Inr ''Incorrect GBE'' \<and>
   check_gbe_match [(''BRAND1_VALIDATED'', Null), (''GBE_VALIDATED'', Str ''Other'')]
     = Inr ''Missing Data'' \<and>
   check_gbe_match [(''BRAND1_VALIDATED'', Str ''Acme (X)''), (''GBE_VALIDATED'', Null)]
     = Inr ''Missing Data''"
proof -
  have a: "row_get [(''BRAND1_VALIDATED'', Str ''Acme (X)''), (''GBE_VALIDATED'', Str ''Acme Europe'')]
             ''BRAND1_VALIDATED'' = Inr (Str ''Acme (X)'')"
    and b: "row_get [(''BRAND1_VALIDATED'', Str ''Acme (X)''), (''GBE_VALIDATED'', Str ''Acme Europe'')]
             ''GBE_VALIDATED'' = Inr (Str ''Acme Europe'')"
    and c: "row_get [(''BRAND1_VALIDATED'', Str ''Acme (X)''), (''GBE_VALIDATED'', Str ''Other'')]
             ''BRAND1_VALIDATED'' = Inr (Str ''Acme (X)'')"
    and d: "row_get [(''BRAND1_VALIDATED'', Str ''Acme (X)''), (''GBE_VALIDATED'', Str ''Other'')]
             ''GBE_VALIDATED'' = Inr (Str ''Other'')"
    and e: "row_get [(''BRAND1_VALIDATED'', Null), (''GBE_VALIDATED'', Str ''Other'')]
             ''BRAND1_VALIDATED'' = Inr Null"
    and f: "row_get [(''BRAND1_VALIDATED'', Null), (''GBE_VALIDATED'', Str ''Other'')]
             ''GBE_VALIDATED'' = Inr (Str ''Other'')"
    and g: "row_get [(''BRAND1_VALIDATED'', Str ''Acme (X)''), (''GBE_VALIDATED'', Null)]
             ''BRAND1_VALIDATED'' = Inr (Str ''Acme (X)'')"
    and h: "row_get [(''BRAND1_VALIDATED'', Str ''Acme (X)''), (''GBE_VALIDATED'', Null)]
             ''GBE_VALIDATED'' = Inr Null"
    by (simp_all add: row_get_def)
  show ?thesis
    using check_gbe_match_classification [OF a b] check_gbe_match_classification [OF c d]
      check_gbe_match_classification [OF e f] check_gbe_match_classification [OF g h]
    by (simp add: strip_Acme)
qed

text \<open>
  Claim C10. When the brand name and the group entity are both present and the brand name
  begins with \<^verbatim>\<open>(\<close>, the check answers \<^verbatim>\<open>Correct GBE\<close> whatever the group entity is:
  the text before the first \<^verbatim>\<open>(\<close> is empty, and every string starts with the empty string.
\<close>

theorem check_gbe_match_leading_paren:
  assumes "row_get r ''BRAND1_VALIDATED'' = Inr (Str (CHR ''('' # b))"
      and "row_get r ''GBE_VALIDATED'' = Inr (Str g)"
  shows "check_gbe_match r = Inr ''Correct GBE''"
  using assms by (simp add: check_gbe_match_strings strip_def)

theorem check_gbe_match_leading_paren_witness:
  "check_gbe_match [(''BRAND1_VALIDATED'', Str ''(X) Acme''), (''GBE_VALIDATED'', Str ''Other'')]
     = Inr ''Correct GBE''"
proof -
  have a: "row_get [(''BRAND1_VALIDATED'', Str ''(X) Acme''), (''GBE_VALIDATED'', Str ''Other'')]
             ''BRAND1_VALIDATED'' = Inr (Str (CHR ''('' # ''X) Acme''))"
    and b: "row_get [(''BRAND1_VALIDATED'', Str ''(X) Acme''), (''GBE_VALIDATED'', Str ''Other'')]
             ''GBE_VALIDATED'' = Inr (Str ''Other'')"
    by (simp_all add: row_get_def)
  show ?thesis
    by (rule check_gbe_match_leading_paren [OF a b])
qed

section \<open>The Spacing Fix\<close>

lemma isspace_simps [simp]: "\<not> isspace CHR ''(''" "isspace CHR '' ''" "\<not> isspace CHR '';''"
  by (simp_all add: isspace_def)

lemma re_sub_paren_fixed: "\<not> unspaced_paren s \<Longrightarrow> re_sub_paren s = s"
  by (induction s rule: re_sub_paren.induct) auto

lemma re_sub_paren_hd: "re_sub_paren (x # s) = x # tl (re_sub_paren (x # s))"
  by (cases s) auto

lemma re_sub_paren_spaced: "\<not> adjacent_parens s \<Longrightarrow> \<not> unspaced_paren (re_sub_paren s)"
proof (induction s rule: re_sub_paren.induct)
  case (1 x y rest)
  show ?case
  proof (cases "\<not> isspace x \<and> y = CHR ''(''")
    case True
    then have r: "\<not> adjacent_parens rest" using 1(3) by (cases rest) auto
    have "\<not> unspaced_paren (CHR ''('' # re_sub_paren rest)"
    proof (cases rest)
      case Nil then show ?thesis by simp
    next
      case (Cons z zs)
      with True 1(3) have "z \<noteq> CHR ''(''" by auto
      moreover have "\<not> unspaced_paren (re_sub_paren rest)" using 1(1) True r by simp
      ultimately show ?thesis using Cons re_sub_paren_hd [of z zs] 
        by (metis list.sel(3) unspaced_paren.simps(1))
    qed
    with True show ?thesis by simp
  next
    case False
    then have "\<not> adjacent_parens (y # rest)" using 1(3) by auto
    with 1(2) False have ih: "\<not> unspaced_paren (re_sub_paren (y # rest))" by simp
    show ?thesis using False ih re_sub_paren_hd [of y rest]
      by (metis re_sub_paren.simps(1) unspaced_paren.simps(1))
  qed
qed simp_all

lemma re_sub_paren_idem: "\<not> adjacent_parens s \<Longrightarrow> re_sub_paren (re_sub_paren s) = re_sub_paren s"
  by (simp add: re_sub_paren_fixed re_sub_paren_spaced)

lemma re_sub_paren_spec: "\<not> adjacent_parens s \<Longrightarrow> re_sub_paren s = spec_space_before_parens s"
proof (induction s rule: re_sub_paren.induct)
  case (1 x y rest)
  show ?case
  proof (cases "\<not> isspace x \<and> y = CHR ''(''")
    case True
    then have r: "\<not> adjacent_parens rest" using 1(3) by (cases rest) auto
    have "spec_space_before_parens (CHR ''('' # rest) = CHR ''('' # spec_space_before_parens rest"
      using True 1(3) by (cases rest) auto
    with True 1(1) r show ?thesis by simp
  next
    case False
    then have "\<not> adjacent_parens (y # rest)" using 1(3) by auto
    with 1(2) False have "re_sub_paren (y # rest) = spec_space_before_parens (y # rest)"
      by blast
    moreover have "re_sub_paren (x # y # rest) = x # re_sub_paren (y # rest)"
      using False by auto
    moreover have "spec_space_before_parens (x # y # rest) = x # spec_space_before_parens (y # rest)"
      using False by auto
    ultimately show ?thesis by simp
  qed
qed simp_all

lemma re_sub_paren_semicolon: "CHR '';'' \<in> set (re_sub_paren s) \<longleftrightarrow> CHR '';'' \<in> set s"
  by (induction s rule: re_sub_paren.induct) auto

lemma split_on_free: "t \<in> set (split_on sep s) \<Longrightarrow> sep \<notin> set t"
  by (induction s arbitrary: t) (auto split: list.splits if_splits)

lemma split_on_no_sep: "sep \<notin> set t \<Longrightarrow> split_on sep t = [t]"
  by (induction t) auto

lemma split_on_append: "sep \<notin> set t \<Longrightarrow> split_on sep (t @ sep # s) = t # split_on sep s"
  by (induction t) auto

lemma split_on_join:
  "ts \<noteq> [] \<Longrightarrow> \<forall>t\<in>set ts. sep \<notin> set t \<Longrightarrow> split_on sep (join_with sep ts) = ts"
  by (induction ts rule: join_with.induct) (auto simp: split_on_no_sep split_on_append)

lemma adjacent_parens_append: "adjacent_parens xs \<Longrightarrow> adjacent_parens (xs @ ys)"
  by (induction xs rule: adjacent_parens.induct) auto

lemma adjacent_parens_Cons: "adjacent_parens xs \<Longrightarrow> adjacent_parens (x # xs)"
  by (cases xs) auto

lemma adjacent_parens_token:
  "t \<in> set (split_on sep s) \<Longrightarrow> adjacent_parens t \<Longrightarrow> adjacent_parens s"
proof (induction s arbitrary: t)
  case Nil then show ?case by simp
next
  case (Cons c cs)
  show ?case
  proof (cases "c = sep")
    case True
    with Cons show ?thesis by (auto intro: adjacent_parens_Cons)
  next
    case False
    obtain u us where u: "split_on sep cs = u # us"
      using split_on_not_Nil [of sep cs] by (cases "split_on sep cs") auto
    then have hd: "u = takeWhile (\<lambda>c. c \<noteq> sep) cs" using hd_split_on [of sep cs] by simp
    from Cons(2) False u have "t = c # u \<or> t \<in> set us" by auto
    then show ?thesis
    proof
      assume "t = c # u"
      with Cons(3) have "adjacent_parens ((c # u) @ dropWhile (\<lambda>c. c \<noteq> sep) cs)"
        by (intro adjacent_parens_append) simp
      then show ?thesis by (simp add: hd)
    next
      assume "t \<in> set us"
      with u Cons show ?thesis by (auto intro: adjacent_parens_Cons)
    qed
  qed
qed

text \<open>
  Claim C8, as amended. The Spacing Fix leaves a missing value as it is. On a string with no
  two opening parentheses side by side it is idempotent, and in each token between
  semicolons it puts a single space before every \<^verbatim>\<open>(\<close> that follows a character that is
  not whitespace.
\<close>

theorem fix_spacing_idempotent:
  assumes "\<not> adjacent_parens s"
  shows "fix_spacing (fix_spacing (Str s)) = fix_spacing (Str s) \<and>
         fix_spacing (Str s) =
           Str (join_with CHR '';'' (map spec_space_before_parens (split_on CHR '';'' s))) \<and>
         fix_spacing Null = Null"
proof -
  let ?ts = "split_on CHR '';'' s"
  have na: "\<forall>t\<in>set ?ts. \<not> adjacent_parens t"
    using assms adjacent_parens_token by blast
  have free: "\<forall>t\<in>set (map re_sub_paren ?ts). CHR '';'' \<notin> set t"
    by (auto simp: re_sub_paren_semicolon dest: split_on_free)
  have ne: "map re_sub_paren ?ts \<noteq> []" by (simp add: split_on_not_Nil)
  have again: "split_on CHR '';'' (join_with CHR '';'' (map re_sub_paren ?ts)) = map re_sub_paren ?ts"
    by (rule split_on_join [OF ne free])
  have idem: "map re_sub_paren (map re_sub_paren ?ts) = map re_sub_paren ?ts"
    using na by (simp add: re_sub_paren_idem)
  have spec: "map re_sub_paren ?ts = map spec_space_before_parens ?ts"
    using na by (simp add: re_sub_paren_spec)
  have one: "fix_spacing (Str s) = Str (join_with CHR '';'' (map re_sub_paren ?ts))"
    by (simp add: fix_spacing_def isna_def)
  have two: "fix_spacing (fix_spacing (Str s)) = fix_spacing (Str s)"
    unfolding one by (simp add: fix_spacing_def isna_def again idem del: map_map)
  have three: "fix_spacing (Str s) = Str (join_with CHR '';'' (map spec_space_before_parens ?ts))"
    unfolding one spec ..
  have four: "fix_spacing Null = Null"
    by (simp add: fix_spacing_def isna_def)
  show ?thesis using two three four by blast
qed

theorem fix_spacing_idempotent_witness:
  "fix_spacing (Str ''Brand(Group)'') = Str ''Brand (Group)'' \<and>
   fix_spacing (Str ''Brand (Group)'') = Str ''Brand (Group)'' \<and>
   fix_spacing (fix_spacing (Str ''Brand(Group)'')) = fix_spacing (Str ''Brand(Group)'')"
proof -
  have a: "\<not> adjacent_parens ''Brand(Group)''" by simp
  have b: "\<not> adjacent_parens ''Brand (Group)''" by simp
  show ?thesis
    using fix_spacing_idempotent [OF a] fix_spacing_idempotent [OF b]
    by (simp add: isspace_def)
qed

text \<open>
  Claim C8 as stated fails: matches of the pattern do not overlap, so of two parentheses
  side by side behind a letter only the first gets its space in one pass, and a second pass
  changes the string again.
\<close>

theorem fix_spacing_not_idempotent:
  "fix_spacing (Str ''a(('') = Str ''a (('' \<and>
   fix_spacing (fix_spacing (Str ''a((''))  = Str ''a ( ('' \<and>
   fix_spacing (fix_spacing (Str ''a((''))  \<noteq> fix_spacing (Str ''a(('')"
  by (simp add: fix_spacing_def isna_def isspace_def)

section \<open>Frame lemmas\<close>

lemma filter_label_Nil: "filter (\<lambda>p. fst p = c) df = [] \<longleftrightarrow> \<not> has_column c df"
  by (auto simp: has_column_def filter_empty_conv)

lemma getitem_KeyError: "getitem df c = Inl (KeyError k) \<longleftrightarrow> k = c \<and> \<not> has_column c df"
  by (auto simp: getitem_def filter_label_Nil [symmetric] split: list.splits)

lemma getitem_distinct:
  "distinct (map fst df) \<Longrightarrow>
   getitem df c = (case map_of df c of None \<Rightarrow> Inl (KeyError c) | Some s \<Rightarrow> Inr s)"
proof (induction df)
  case Nil
  then show ?case by (simp add: getitem_def)
next
  case (Cons p df)
  show ?case
  proof (cases "fst p = c")
    case True
    with Cons(2) have "c \<notin> set (map fst df)" by simp
    then have "filter (\<lambda>q. fst q = c) df = []"
      unfolding filter_empty_conv by (metis in_set_conv_nth length_map nth_map nth_mem)
    with True show ?thesis by (cases p) (simp add: getitem_def)
  next
    case False
    with Cons show ?thesis by (cases p) (simp add: getitem_def)
  qed
qed

lemma getitem_has_column:
  "distinct (map fst df) \<Longrightarrow> has_column c df \<Longrightarrow> \<exists>s. getitem df c = Inr s"
  by (cases "map_of df c") (auto simp: getitem_distinct has_column_def map_of_eq_None_iff)

lemma labels_setitem:
  "map fst (setitem df c s) = (if has_column c df then map fst df else map fst df @ [c])"
  by (auto simp: setitem_def has_column_def intro: map_idI)

lemma distinct_setitem: "distinct (map fst df) \<Longrightarrow> distinct (map fst (setitem df c s))"
  by (simp add: labels_setitem has_column_def)

lemma has_column_setitem: "has_column d (setitem df c s) \<longleftrightarrow> d = c \<or> has_column d df"
  by (auto simp: has_column_def labels_setitem)

lemma map_of_replace:
  "map_of (map (\<lambda>p. if fst p = c then (c, s) else p) df) d =
     (if d = c \<and> c \<in> fst ` set df then Some s else map_of df d)"
  by (induction df) force+

lemma map_of_setitem:
  "map_of (setitem df c s) d = (if d = c then Some s else map_of df d)"
proof (cases "has_column c df")
  case True
  then show ?thesis by (simp add: setitem_def map_of_replace has_column_def)
next
  case False
  then have "map_of df c = None" by (simp add: has_column_def map_of_eq_None_iff)
  with False show ?thesis by (auto simp: setitem_def map_add_def split: option.splits)
qed

lemma getitem_setitem:
  "distinct (map fst df) \<Longrightarrow>
   getitem (setitem df c s) d = (if d = c then Inr s else getitem df d)"
  by (simp add: getitem_distinct distinct_setitem map_of_setitem)

section \<open>The Column Splitter\<close>

lemma split_brand_columns_KeyError:
  "(\<exists>msg. split_brand_columns df = Inl (KeyError msg)) \<longleftrightarrow>
   \<not> has_column ''BRAND_VALIDATED'' df \<and> \<not> has_column ''BRAND_1'' df"
proof (cases "has_column ''BRAND_VALIDATED'' df")
  case True
  then have "\<forall>k. getitem df ''BRAND_VALIDATED'' \<noteq> Inl (KeyError k)"
    by (simp add: getitem_KeyError)
  with True show ?thesis
    by (auto simp: split_brand_columns_def ebind_def set_columns_def split: sum.splits if_splits)
next
  case False
  show ?thesis
  proof (cases "has_column ''BRAND_1'' df")
    case True
    then have "\<forall>k. getitem df ''BRAND_1'' \<noteq> Inl (KeyError k)"
      by (simp add: getitem_KeyError)
    with True False show ?thesis
      by (auto simp: split_brand_columns_def ebind_def split: sum.splits)
  next
    case b: False
    with False show ?thesis by (simp add: split_brand_columns_def)
  qed
qed

text \<open>
  Claim C9, as amended. The Column Splitter raises its missing-column error (the
  \<^verbatim>\<open>KeyError\<close> of the source, the specification's SchemaError) exactly when the table has
  neither \<^verbatim>\<open>BRAND_VALIDATED\<close> nor \<^verbatim>\<open>BRAND_1\<close>. When only \<^verbatim>\<open>BRAND_1\<close> is there (in a
  table with distinct labels) it succeeds, the brand-name column is a copy of \<^verbatim>\<open>BRAND_1\<close>
  and every other column reads as before.
\<close>

theorem split_brand_columns_missing_column:
  "((\<exists>msg. split_brand_columns df = Inl (KeyError msg)) \<longleftrightarrow>
      \<not> has_column ''BRAND_VALIDATED'' df \<and> \<not> has_column ''BRAND_1'' df) \<and>
   (distinct (map fst df) \<and> \<not> has_column ''BRAND_VALIDATED'' df \<and> has_column ''BRAND_1'' df \<longrightarrow>
      (\<exists>col out. getitem df ''BRAND_1'' = Inr col \<and> split_brand_columns df = Inr out \<and>
                 getitem out ''BRAND1_VALIDATED'' = Inr col \<and>
                 (\<forall>c. c \<noteq> ''BRAND1_VALIDATED'' \<longrightarrow> getitem out c = getitem df c)))"
proof (intro conjI impI)
  show "(\<exists>msg. split_brand_columns df = Inl (KeyError msg)) \<longleftrightarrow>
      \<not> has_column ''BRAND_VALIDATED'' df \<and> \<not> has_column ''BRAND_1'' df"
    by (rule split_brand_columns_KeyError)
next
  assume h: "distinct (map fst df) \<and> \<not> has_column ''BRAND_VALIDATED'' df \<and> has_column ''BRAND_1'' df"
  then obtain col where col: "getitem df ''BRAND_1'' = Inr col"
    using getitem_has_column by blast
  with h have "split_brand_columns df = Inr (setitem df ''BRAND1_VALIDATED'' col)"
    by (simp add: split_brand_columns_def ebind_def)
  moreover have "getitem (setitem df ''BRAND1_VALIDATED'' col) ''BRAND1_VALIDATED'' = Inr col"
    using h by (simp add: getitem_setitem)
  moreover have "\<forall>c. c \<noteq> ''BRAND1_VALIDATED'' \<longrightarrow>
      getitem (setitem df ''BRAND1_VALIDATED'' col) c = getitem df c"
    using h by (simp add: getitem_setitem)
  ultimately show "\<exists>col out. getitem df ''BRAND_1'' = Inr col \<and> split_brand_columns df = Inr out \<and>
                 getitem out ''BRAND1_VALIDATED'' = Inr col \<and>
                 (\<forall>c. c \<noteq> ''BRAND1_VALIDATED'' \<longrightarrow> getitem out c = getitem df c)"
    using col by blast
qed

theorem split_brand_columns_missing_column_witness:
  "split_brand_columns [(''SUPER_GROUP'', [Str ''EMEA'']), (''BRAND_1'', [Str ''X''])] =
     Inr [(''SUPER_GROUP'', [Str ''EMEA'']), (''BRAND_1'', [Str ''X'']), (''BRAND1_VALIDATED'', [Str ''X''])] \<and>
   (\<exists>msg. split_brand_columns [(''SUPER_GROUP'', [Str ''EMEA''])] = Inl (KeyError msg))"
proof -
  let ?df = "[(''SUPER_GROUP'', [Str ''EMEA'']), (''BRAND_1'', [Str ''X''])]"
  have h: "distinct (map fst ?df) \<and> \<not> has_column ''BRAND_VALIDATED'' ?df \<and> has_column ''BRAND_1'' ?df"
    by (simp add: has_column_def)
  have g: "getitem ?df ''BRAND_1'' = Inr [Str ''X'']"
    by (simp add: getitem_def)
  have n: "\<not> has_column ''BRAND_VALIDATED'' [(''SUPER_GROUP'', [Str ''EMEA''])] \<and>
           \<not> has_column ''BRAND_1'' [(''SUPER_GROUP'', [Str ''EMEA''])]"
    by (simp add: has_column_def)
  from split_brand_columns_missing_column [of ?df] h g
  obtain out where "split_brand_columns ?df = Inr out" by auto
  then have "split_brand_columns ?df =
     Inr [(''SUPER_GROUP'', [Str ''EMEA'']), (''BRAND_1'', [Str ''X'']), (''BRAND1_VALIDATED'', [Str ''X''])]"
    using g by (simp add: split_brand_columns_def has_column_def ebind_def setitem_def)
  moreover have "\<exists>msg. split_brand_columns [(''SUPER_GROUP'', [Str ''EMEA''])] = Inl (KeyError msg)"
    using split_brand_columns_missing_column [of "[(''SUPER_GROUP'', [Str ''EMEA''])]"] n by blast
  ultimately show ?thesis by blast
qed

text \<open>
  Claim C9 as stated fails in its "only if": a table that has \<^verbatim>\<open>BRAND_VALIDATED\<close> still
  makes the Column Splitter raise when the widest value does not have three tokens, since
  three labels are then assigned to another number of columns.
\<close>

theorem split_brand_columns_raises_with_column:
  "has_column ''BRAND_VALIDATED'' [(''BRAND_VALIDATED'', [Str ''A;B''])] \<and>
   split_brand_columns [(''BRAND_VALIDATED'', [Str ''A;B''])] = Inl LengthMismatch"
  by (simp add: split_brand_columns_def has_column_def getitem_def ebind_def set_columns_def
      str_split_expand_def cons_row_def max_len_def)

lemma max_len_le: "max_len rs \<le> n \<longleftrightarrow> (\<forall>r\<in>set rs. length r \<le> n)"
  by (induction rs) (auto simp: max_len_def)

lemma max_len_mem: "rs \<noteq> [] \<Longrightarrow> \<exists>r\<in>set rs. length r = max_len rs"
proof (induction rs)
  case Nil then show ?case by simp
next
  case (Cons r rs)
  show ?case
  proof (cases "rs = []")
    case True then show ?thesis by (simp add: max_len_def)
  next
    case False
    with Cons obtain q where "q \<in> set rs" "length q = max_len rs" by blast
    then show ?thesis by (cases "length r \<le> max_len rs") (auto simp: max_len_def max_def)
  qed
qed

lemma length_cons_row: "length (cons_row v) = (if v = Null then 1 else token_count v)"
  by (cases v) (simp_all add: cons_row_def token_count_def)

lemma token_count_pos: "v \<noteq> Null \<Longrightarrow> 0 < token_count v"
  by (cases v) (simp_all add: token_count_def split_on_not_Nil)

lemma max_len_three:
  "max_len (map cons_row col) = 3 \<longleftrightarrow>
     (\<forall>v\<in>set col. token_count v \<le> 3) \<and> (\<exists>v\<in>set col. token_count v = 3)"
proof
  assume m: "max_len (map cons_row col) = 3"
  then have le: "\<forall>r\<in>set (map cons_row col). length r \<le> 3"
    using max_len_le [of "map cons_row col" 3] by simp
  have a: "\<forall>v\<in>set col. token_count v \<le> 3"
  proof
    fix v assume "v \<in> set col"
    with le have "length (cons_row v) \<le> 3" by simp
    then show "token_count v \<le> 3" by (auto simp: length_cons_row token_count_def split: if_splits)
  qed
  from m have "map cons_row col \<noteq> []" by (auto simp: max_len_def)
  from max_len_mem [OF this] m obtain v where v: "v \<in> set col" "length (cons_row v) = 3" by auto
  have "token_count v = 3" using v(2) by (simp add: length_cons_row split: if_splits)
  with a v show "(\<forall>v\<in>set col. token_count v \<le> 3) \<and> (\<exists>v\<in>set col. token_count v = 3)" by blast
next
  assume h: "(\<forall>v\<in>set col. token_count v \<le> 3) \<and> (\<exists>v\<in>set col. token_count v = 3)"
  have "\<forall>r\<in>set (map cons_row col). length r \<le> 3"
  proof
    fix r assume "r \<in> set (map cons_row col)"
    then obtain v where v: "v \<in> set col" "r = cons_row v" by auto
    with h have "token_count v \<le> 3" by blast
    with v(2) show "length r \<le> 3" by (simp add: length_cons_row)
  qed
  then have le: "max_len (map cons_row col) \<le> 3" by (simp only: max_len_le)
  from h obtain v where v: "v \<in> set col" "token_count v = 3" by blast
  have "length (cons_row v) = 3" using v(2) by (auto simp: length_cons_row token_count_def)
  moreover have "length (cons_row v) \<le> max_len (map cons_row col)"
    using v(1) max_len_le [of "map cons_row col" "max_len (map cons_row col)"] by simp
  ultimately show "max_len (map cons_row col) = 3" using le by simp
qed

lemma pad_row_part:
  assumes "length (cons_row v) \<le> 3" and "j < 3"
  shows "pad_row 3 (cons_row v) ! j = positional_part j v"
proof (cases v)
  case Null
  with assms show ?thesis
    by (cases j) (simp_all add: pad_row_def cons_row_def positional_part_def nth_Cons')
next
  case (Str s)
  with assms show ?thesis
    by (simp add: pad_row_def cons_row_def positional_part_def nth_append)
qed

lemma str_split_expand_three:
  assumes "max_len (map cons_row col) = 3"
  shows "str_split_expand col =
           [map (positional_part 0) col, map (positional_part 1) col, map (positional_part 2) col]"
proof -
  have le: "\<forall>v\<in>set col. length (cons_row v) \<le> 3"
    using assms max_len_le [of "map cons_row col" 3] by simp
  have up: "[0..<3] = [0, 1, 2]" by (simp add: upt_rec)
  have "\<And>j. j < 3 \<Longrightarrow> map (\<lambda>r. pad_row 3 r ! j) (map cons_row col) = map (positional_part j) col"
    using le by (simp add: pad_row_part)
  then show ?thesis
    using assms by (simp add: str_split_expand_def Let_def up del: map_map)
qed

text \<open>
  Claim C2, as amended. For a table with a \<^verbatim>\<open>BRAND_VALIDATED\<close> column in which no value has
  more than three tokens and some value has exactly three, the Column Splitter appends the
  three positional parts of every value as owner-internal-id, brand-name and group-entity,
  a missing part being null. In every other case (a value with more than three tokens, or no
  value with three) it raises the length-mismatch error and nothing is discarded.
\<close>

theorem split_brand_columns_three_parts:
  assumes "getitem df ''BRAND_VALIDATED'' = Inr col"
  shows "((\<forall>v\<in>set col. token_count v \<le> 3) \<and> (\<exists>v\<in>set col. token_count v = 3) \<longrightarrow>
            split_brand_columns df =
              Inr (df @ [(''BOI_VALIDATED'', map (positional_part 0) col),
                         (''BRAND1_VALIDATED'', map (positional_part 1) col),
                         (''GBE_VALIDATED'', map (positional_part 2) col)])) \<and>
         (\<not> ((\<forall>v\<in>set col. token_count v \<le> 3) \<and> (\<exists>v\<in>set col. token_count v = 3)) \<longrightarrow>
            split_brand_columns df = Inl LengthMismatch)"
proof -
  have hc: "has_column ''BRAND_VALIDATED'' df"
    using assms getitem_KeyError [of df "''BRAND_VALIDATED''" "''BRAND_VALIDATED''"] by auto
  have len: "length (str_split_expand col) = max_len (map cons_row col)"
    by (simp add: str_split_expand_def Let_def)
  show ?thesis
  proof (cases "max_len (map cons_row col) = 3")
    case True
    have "split_brand_columns df =
              Inr (df @ [(''BOI_VALIDATED'', map (positional_part 0) col),
                         (''BRAND1_VALIDATED'', map (positional_part 1) col),
                         (''GBE_VALIDATED'', map (positional_part 2) col)])"
      using hc assms
      by (simp add: split_brand_columns_def ebind_def set_columns_def str_split_expand_three [OF True])
    with True show ?thesis by (simp only: max_len_three) simp
  next
    case False
    have "split_brand_columns df = Inl LengthMismatch"
      using hc assms False len
      by (simp add: split_brand_columns_def ebind_def set_columns_def)
    with False show ?thesis by (simp only: max_len_three) simp
  qed
qed

theorem split_brand_columns_three_parts_witness:
  "split_brand_columns [(''BRAND_VALIDATED'', [Str ''A;B;C'', Str ''D;E'', Null])] =
     Inr [(''BRAND_VALIDATED'', [Str ''A;B;C'', Str ''D;E'', Null]),
          (''BOI_VALIDATED'', [Str ''A'', Str ''D'', Null]),
          (''BRAND1_VALIDATED'', [Str ''B'', Str ''E'', Null]),
          (''GBE_VALIDATED'', [Str ''C'', Null, Null])] \<and>
   split_brand_columns [(''BRAND_VALIDATED'', [Str ''A;B'', Str ''D''])] = Inl LengthMismatch"
proof -
  have a: "getitem [(''BRAND_VALIDATED'', [Str ''A;B;C'', Str ''D;E'', Null])] ''BRAND_VALIDATED''
             = Inr [Str ''A;B;C'', Str ''D;E'', Null]"
    and b: "getitem [(''BRAND_VALIDATED'', [Str ''A;B'', Str ''D''])] ''BRAND_VALIDATED''
             = Inr [Str ''A;B'', Str ''D'']"
    by (simp_all add: getitem_def)
  show ?thesis
    using split_brand_columns_three_parts [OF a] split_brand_columns_three_parts [OF b]
    by (simp add: token_count_def positional_part_def)
qed

text \<open>
  Claim C2 as stated fails: a value with a fourth token does not lose it silently, the
  Column Splitter raises.
\<close>

theorem split_brand_columns_extra_tokens:
  "split_brand_columns [(''BRAND_VALIDATED'', [Str ''A;B;C;D''])] = Inl LengthMismatch"
  by (simp add: split_brand_columns_def has_column_def getitem_def ebind_def set_columns_def
      str_split_expand_def cons_row_def max_len_def)

section \<open>The Key Builder\<close>

lemma rstrip_spaces_Cons:
  "rstrip_spaces (c # xs) =
     (if c = CHR '' '' \<and> (\<forall>x\<in>set xs. x = CHR '' '') then [] else c # rstrip_spaces xs)"
  by (auto simp: rstrip_spaces_def dropWhile_append)

lemma dropWhile_eq_single:
  "dropWhile P cs = [n] \<Longrightarrow> \<not> P n \<Longrightarrow> cs \<noteq> [] \<and> last cs = n \<and> (\<forall>x\<in>set (butlast cs). P x)"
proof (induction cs)
  case Nil
  then show ?case by simp
next
  case (Cons c cs)
  show ?case
  proof (cases "P c")
    case True
    with Cons.prems(1) have "dropWhile P cs = [n]" by simp
    from Cons.IH [OF this Cons.prems(2)]
    have ih: "cs \<noteq> []" "last cs = n" "\<forall>x\<in>set (butlast cs). P x" by blast+
    from ih(1) have "last (c # cs) = last cs" "butlast (c # cs) = c # butlast cs" by simp_all
    with ih True show ?thesis by simp
  next
    case False
    with Cons.prems(1) have "c # cs = [n]" by simp
    then show ?thesis by simp
  qed
qed

lemma dropWhile_single_conv:
  "\<not> P n \<Longrightarrow> cs \<noteq> [] \<Longrightarrow> last cs = n \<Longrightarrow> \<forall>x\<in>set (butlast cs). P x \<Longrightarrow> dropWhile P cs = [n]"
  by (induction cs) (auto split: if_splits)

lemma re_sub_trailing_spaces_spec: "re_sub_trailing_spaces s = spec_strip_trailing s"
proof (induction s)
  case Nil
  show ?case by (simp add: spec_strip_trailing_def rstrip_spaces_def)
next
  case (Cons c cs)
  let ?d = "dropWhile (\<lambda>x. x = CHR '' '') cs"
  show ?case
  proof (cases "c = CHR '' '' \<and> at_dollar ?d")
    case True
    then consider "?d = []" | "?d = [CHR 0x0A]" by (auto simp: at_dollar_def)
    then show ?thesis
    proof cases
      case 1
      then have all: "\<forall>x\<in>set cs. x = CHR '' ''" by (simp add: dropWhile_eq_Nil_conv)
      then have "cs \<noteq> [] \<Longrightarrow> last cs = CHR '' ''" using last_in_set by blast
      then have nl: "last (c # cs) \<noteq> CHR 0x0A" using True by auto
      have "re_sub_trailing_spaces (c # cs) = ?d" using True by simp
      then have l: "re_sub_trailing_spaces (c # cs) = []" unfolding 1 .
      have "rstrip_spaces (c # cs) = []" using True all by (simp add: rstrip_spaces_Cons)
      then have "spec_strip_trailing (c # cs) = []"
        using nl unfolding spec_strip_trailing_def by simp
      with l show ?thesis by simp
    next
      case 2
      have "\<not> (CHR 0x0A = CHR '' '')" by simp
      with 2 have cs: "cs \<noteq> [] \<and> last cs = CHR 0x0A \<and> (\<forall>x\<in>set (butlast cs). x = CHR '' '')"
        using dropWhile_eq_single [of "\<lambda>x. x = CHR '' ''" cs "CHR 0x0A"] by blast
      have "re_sub_trailing_spaces (c # cs) = ?d" using True by simp
      then have l: "re_sub_trailing_spaces (c # cs) = [CHR 0x0A]" unfolding 2 .
      have "rstrip_spaces (butlast (c # cs)) = []"
        using True cs by (simp add: rstrip_spaces_Cons)
      moreover have "last (c # cs) = CHR 0x0A" using cs by simp
      ultimately have "spec_strip_trailing (c # cs) = [CHR 0x0A]"
        unfolding spec_strip_trailing_def by simp
      with l show ?thesis by simp
    qed
  next
    case False
    then have step: "re_sub_trailing_spaces (c # cs) = c # spec_strip_trailing cs"
      using Cons by auto
    show ?thesis
    proof (cases "cs = []")
      case True
      with False have "c \<noteq> CHR '' ''" by (auto simp: at_dollar_def)
      then have "spec_strip_trailing [c] = [c]"
        unfolding spec_strip_trailing_def rstrip_spaces_def by simp
      moreover have "spec_strip_trailing [] = []"
        unfolding spec_strip_trailing_def rstrip_spaces_def by simp
      ultimately show ?thesis using True step by simp
    next
      case ne: False
      show ?thesis
      proof (cases "last cs = CHR 0x0A")
        case True
        have "\<not> (c = CHR '' '' \<and> (\<forall>x\<in>set (butlast cs). x = CHR '' ''))"
        proof
          assume a: "c = CHR '' '' \<and> (\<forall>x\<in>set (butlast cs). x = CHR '' '')"
          then have "?d = [CHR 0x0A]"
            using ne True by (intro dropWhile_single_conv) auto
          with a False show False by (simp add: at_dollar_def)
        qed
        then have "rstrip_spaces (c # butlast cs) = c # rstrip_spaces (butlast cs)"
          unfolding rstrip_spaces_Cons by simp
        moreover have "spec_strip_trailing (c # cs) = rstrip_spaces (c # butlast cs) @ [CHR 0x0A]"
          using ne True unfolding spec_strip_trailing_def by simp
        moreover have "spec_strip_trailing cs = rstrip_spaces (butlast cs) @ [CHR 0x0A]"
          using ne True unfolding spec_strip_trailing_def by simp
        ultimately show ?thesis using step by simp
      next
        case nl: False
        have "\<not> (c = CHR '' '' \<and> (\<forall>x\<in>set cs. x = CHR '' ''))"
        proof
          assume a: "c = CHR '' '' \<and> (\<forall>x\<in>set cs. x = CHR '' '')"
          then have "?d = []" by (simp add: dropWhile_eq_Nil_conv)
          with a False show False by (simp add: at_dollar_def)
        qed
        then have "rstrip_spaces (c # cs) = c # rstrip_spaces cs"
          unfolding rstrip_spaces_Cons by simp
        moreover have "spec_strip_trailing (c # cs) = rstrip_spaces (c # cs)"
          using ne nl unfolding spec_strip_trailing_def by simp
        moreover have "spec_strip_trailing cs = rstrip_spaces cs"
          using ne nl unfolding spec_strip_trailing_def by simp
        ultimately show ?thesis using step by simp
      qed
    qed
  qed
qed

lemma re_sub_trailing_spaces_nan: "re_sub_trailing_spaces ''nan'' = ''nan''"
  by (simp add: at_dollar_def)

lemma clean_cell_spec:
  "str_replace_trailing (astype_str (str_extract v)) = spec_cleaned_brand v"
proof (cases v)
  case Null
  then show ?thesis
    by (simp add: str_replace_trailing_def astype_str_def str_extract_def spec_cleaned_brand_def
        re_sub_trailing_spaces_nan)
next
  case (Str s)
  show ?thesis
  proof (cases "leading_run s = []")
    case True
    then have "str_extract v = Null"
      using Str by (simp add: str_extract_def leading_run_def)
    then have "str_replace_trailing (astype_str (str_extract v)) = Str ''nan''"
      by (simp add: str_replace_trailing_def astype_str_def re_sub_trailing_spaces_nan)
    moreover have "spec_cleaned_brand v = Str ''nan''"
      using Str True by (simp add: spec_cleaned_brand_def)
    ultimately show ?thesis by simp
  next
    case False
    then have "str_extract v = Str (leading_run s)"
      using Str by (simp add: str_extract_def leading_run_def)
    then have "str_replace_trailing (astype_str (str_extract v)) =
                 Str (spec_strip_trailing (leading_run s))"
      by (simp add: str_replace_trailing_def astype_str_def re_sub_trailing_spaces_spec)
    moreover have "spec_cleaned_brand v = Str (spec_strip_trailing (leading_run s))"
      using Str False by (simp add: spec_cleaned_brand_def)
    ultimately show ?thesis by simp
  qed
qed

text \<open>
  Claim C3, as amended. In a table with distinct labels and a brand-name column, the Key
  Builder succeeds and the cleaned brand name of every row is: for a brand name with a
  non-empty run of characters before the first \<^verbatim>\<open>[\<close> or \<^verbatim>\<open>(\<close>, that run with its trailing
  spaces stripped (before a final newline, if the run ends with one); for a missing brand
  name, and for one that is empty or begins with a bracket, the text \<^verbatim>\<open>nan\<close>.
\<close>

theorem cleaned_brand_name:
  assumes "distinct (map fst df)" and "getitem df ''BRAND1_VALIDATED'' = Inr brand"
  shows "\<exists>out. clean_and_merge_supergroup df = Inr out \<and>
               getitem out ''BRAND_1_CLEAN'' = Inr (map spec_cleaned_brand brand)"
proof -
  let ?c1 = "map (\<lambda>v. astype_str (str_extract v)) brand"
  let ?df1 = "setitem df ''BRAND_1_CLEAN'' ?c1"
  let ?c2 = "map str_replace_trailing ?c1"
  let ?df2 = "setitem ?df1 ''BRAND_1_CLEAN'' ?c2"
  have d1: "distinct (map fst ?df1)" using assms(1) by (rule distinct_setitem)
  have d2: "distinct (map fst ?df2)" using d1 by (rule distinct_setitem)
  have g1: "getitem ?df1 ''BRAND_1_CLEAN'' = Inr ?c1" using assms(1) by (simp add: getitem_setitem)
  have g2: "getitem ?df2 ''BRAND_1_CLEAN'' = Inr ?c2" using d1 by (simp add: getitem_setitem)
  have c2: "?c2 = map spec_cleaned_brand brand" by (simp add: clean_cell_spec)
  have after: "\<And>s. getitem (setitem ?df2 ''SG_B1'' s) ''BRAND_1_CLEAN'' = Inr ?c2"
    using d2 g2 by (simp add: getitem_setitem)
  show ?thesis
  proof (cases "has_column ''SUPER_GROUP'' ?df2")
    case True
    then obtain sg where sg: "getitem ?df2 ''SUPER_GROUP'' = Inr sg"
      using getitem_has_column [OF d2] by blast
    have "clean_and_merge_supergroup df =
            Inr (setitem ?df2 ''SG_B1'' (series_add (map (\<lambda>v. add_str v '' '') sg) ?c2))"
      using assms(2) g1 g2 True sg
      by (simp add: clean_and_merge_supergroup_def ebind_def Let_def del: map_map)
    with after c2 show ?thesis by metis
  next
    case False
    show ?thesis
    proof (cases "has_column ''SUPER_GROUP_DSCR'' ?df2")
      case True
      then obtain sg where sg: "getitem ?df2 ''SUPER_GROUP_DSCR'' = Inr sg"
        using getitem_has_column [OF d2] by blast
      have "clean_and_merge_supergroup df =
              Inr (setitem ?df2 ''SG_B1'' (series_add (map (\<lambda>v. add_str v '' '') sg) ?c2))"
        using assms(2) g1 g2 True False sg
        by (simp add: clean_and_merge_supergroup_def ebind_def Let_def del: map_map)
      with after c2 show ?thesis by metis
    next
      case nd: False
      have "clean_and_merge_supergroup df = Inr ?df2"
        using assms(2) g1 g2 False nd
        by (simp add: clean_and_merge_supergroup_def ebind_def Let_def del: map_map)
      with g2 c2 show ?thesis by metis
    qed
  qed
qed

theorem cleaned_brand_name_witness:
  "\<exists>out. clean_and_merge_supergroup
            [(''SUPER_GROUP'', [Str ''EMEA'', Str ''EMEA'', Str ''EMEA'']),
             (''BRAND1_VALIDATED'', [Str ''Acme (Group)'', Str ''Acme'', Str ''Acme  [x]''])] = Inr out \<and>
          getitem out ''BRAND_1_CLEAN'' = Inr [Str ''Acme'', Str ''Acme'', Str ''Acme'']"
proof -
  let ?df = "[(''SUPER_GROUP'', [Str ''EMEA'', Str ''EMEA'', Str ''EMEA'']),
             (''BRAND1_VALIDATED'', [Str ''Acme (Group)'', Str ''Acme'', Str ''Acme  [x]''])]"
  have d: "distinct (map fst ?df)" by simp
  have g: "getitem ?df ''BRAND1_VALIDATED'' = Inr [Str ''Acme (Group)'', Str ''Acme'', Str ''Acme  [x]'']"
    by (simp add: getitem_def)
  have "map spec_cleaned_brand [Str ''Acme (Group)'', Str ''Acme'', Str ''Acme  [x]'']
          = [Str ''Acme'', Str ''Acme'', Str ''Acme'']"
    by (simp add: spec_cleaned_brand_def leading_run_def spec_strip_trailing_def rstrip_spaces_def)
  with cleaned_brand_name [OF d g] show ?thesis by simp
qed

text \<open>
  Claim C3 as stated fails: a missing brand name gives the text \<^verbatim>\<open>nan\<close>, not a missing
  cleaned name; so does a brand name that begins with a bracket, whose leading run is empty;
  and spaces before a final newline are stripped although they do not end the string.
\<close>

theorem cleaned_brand_name_null_is_nan:
  "clean_and_merge_supergroup
     [(''SUPER_GROUP'', [Str ''EMEA'', Str ''EMEA'', Str ''EMEA'']),
      (''BRAND1_VALIDATED'', [Null, Str ''(X)'', Str [CHR ''A'', CHR '' '', CHR 0x0A]])] =
   Inr [(''SUPER_GROUP'', [Str ''EMEA'', Str ''EMEA'', Str ''EMEA'']),
        (''BRAND1_VALIDATED'', [Null, Str ''(X)'', Str [CHR ''A'', CHR '' '', CHR 0x0A]]),
        (''BRAND_1_CLEAN'', [Str ''nan'', Str ''nan'', Str [CHR ''A'', CHR 0x0A]]),
        (''SG_B1'', [Str ''EMEA nan'', Str ''EMEA nan'', Str (''EMEA A'' @ [CHR 0x0A])])]"
  by (simp add: clean_and_merge_supergroup_def getitem_def setitem_def has_column_def ebind_def
      astype_str_def str_extract_def str_replace_trailing_def at_dollar_def series_add_def
      add_cells_def add_str_def)

section \<open>The end-to-end example\<close>

lemma c1_split_eu:
  "split_brand_columns [(''SUPER_GROUP'', [Str ''EMEA'']), (''BRAND_1'', [Str ''Acme''])] =
     Inr [(''SUPER_GROUP'', [Str ''EMEA'']), (''BRAND_1'', [Str ''Acme'']),
          (''BRAND1_VALIDATED'', [Str ''Acme''])]"
  by (simp add: split_brand_columns_def has_column_def getitem_def setitem_def ebind_def)

lemma c1_split_ogrds:
  "split_brand_columns [(''SUPER_GROUP'', [Str ''EMEA'']), (''BRAND_VALIDATED'', [Str ''O1;Acme;Acme Europe''])] =
     Inr [(''SUPER_GROUP'', [Str ''EMEA'']), (''BRAND_VALIDATED'', [Str ''O1;Acme;Acme Europe'']),
          (''BOI_VALIDATED'', [Str ''O1'']), (''BRAND1_VALIDATED'', [Str ''Acme'']),
          (''GBE_VALIDATED'', [Str ''Acme Europe''])]"
  by (simp add: split_brand_columns_def has_column_def getitem_def ebind_def set_columns_def
      str_split_expand_def cons_row_def max_len_def pad_row_def upt_rec)

lemma c1_clean_eu:
  "clean_and_merge_supergroup
     [(''SUPER_GROUP'', [Str ''EMEA'']), (''BRAND_1'', [Str ''Acme'']),
      (''BRAND1_VALIDATED'', [Str ''Acme''])] =
   Inr [(''SUPER_GROUP'', [Str ''EMEA'']), (''BRAND_1'', [Str ''Acme'']),
        (''BRAND1_VALIDATED'', [Str ''Acme'']), (''BRAND_1_CLEAN'', [Str ''Acme'']),
        (''SG_B1'', [Str ''EMEA Acme''])]"
  by (simp add: clean_and_merge_supergroup_def getitem_def setitem_def has_column_def ebind_def
      astype_str_def str_extract_def str_replace_trailing_def at_dollar_def series_add_def
      add_cells_def add_str_def)

lemma c1_clean_ogrds:
  "clean_and_merge_supergroup
     [(''SUPER_GROUP'', [Str ''EMEA'']), (''BRAND_VALIDATED'', [Str ''O1;Acme;Acme Europe'']),
      (''BOI_VALIDATED'', [Str ''O1'']), (''BRAND1_VALIDATED'', [Str ''Acme'']),
      (''GBE_VALIDATED'', [Str ''Acme Europe''])] =
   Inr [(''SUPER_GROUP'', [Str ''EMEA'']), (''BRAND_VALIDATED'', [Str ''O1;Acme;Acme Europe'']),
        (''BOI_VALIDATED'', [Str ''O1'']), (''BRAND1_VALIDATED'', [Str ''Acme'']),
        (''GBE_VALIDATED'', [Str ''Acme Europe'']), (''BRAND_1_CLEAN'', [Str ''Acme'']),
        (''SG_B1'', [Str ''EMEA Acme''])]"
  by (simp add: clean_and_merge_supergroup_def getitem_def setitem_def has_column_def ebind_def
      astype_str_def str_extract_def str_replace_trailing_def at_dollar_def series_add_def
      add_cells_def add_str_def)

lemma c1_generate:
  "generate_boi_suggest
     [(''SUPER_GROUP'', [Str ''EMEA'']), (''BRAND_VALIDATED'', [Str ''O1;Acme;Acme Europe'']),
      (''BOI_VALIDATED'', [Str ''O1'']), (''BRAND1_VALIDATED'', [Str ''Acme'']),
      (''GBE_VALIDATED'', [Str ''Acme Europe'']), (''BRAND_1_CLEAN'', [Str ''Acme'']),
      (''SG_B1'', [Str ''EMEA Acme''])] =
   Inl (KeyError ''BRAND_OWNER_INTERNATIONAL'')"
  by (simp add: generate_boi_suggest_def getitem_def ebind_def)

text \<open>
  Without the owner column in the reference table the pipeline stops earlier, in the
  Ownership Suggester.
\<close>

lemma pipeline_without_owner_column:
  "process_pipeline
     [(''SUPER_GROUP'', [Str ''EMEA'']), (''BRAND_1'', [Str ''Acme''])]
     [(''SUPER_GROUP'', [Str ''EMEA'']), (''BRAND_VALIDATED'', [Str ''O1;Acme;Acme Europe''])] =
   Inl (KeyError ''BRAND_OWNER_INTERNATIONAL'')"
  unfolding process_pipeline_def c1_split_eu c1_split_ogrds
  by (simp add: ebind_def c1_clean_eu c1_clean_ogrds c1_generate)

lemma example_split_ogrds:
  "split_brand_columns example_ogrds =
     Inr [(''SUPER_GROUP'', [Str ''EMEA'']), (''BRAND_VALIDATED'', [Str ''O1;Acme;Acme Europe'']),
          (''BRAND_OWNER_INTERNATIONAL'', [Str ''O1'']),
          (''BOI_VALIDATED'', [Str ''O1'']), (''BRAND1_VALIDATED'', [Str ''Acme'']),
          (''GBE_VALIDATED'', [Str ''Acme Europe''])]"
  by (simp add: example_ogrds_def split_brand_columns_def has_column_def getitem_def ebind_def
      set_columns_def str_split_expand_def cons_row_def max_len_def pad_row_def upt_rec)

lemma example_clean_ogrds:
  "clean_and_merge_supergroup
     [(''SUPER_GROUP'', [Str ''EMEA'']), (''BRAND_VALIDATED'', [Str ''O1;Acme;Acme Europe'']),
      (''BRAND_OWNER_INTERNATIONAL'', [Str ''O1'']),
      (''BOI_VALIDATED'', [Str ''O1'']), (''BRAND1_VALIDATED'', [Str ''Acme'']),
      (''GBE_VALIDATED'', [Str ''Acme Europe''])] =
   Inr [(''SUPER_GROUP'', [Str ''EMEA'']), (''BRAND_VALIDATED'', [Str ''O1;Acme;Acme Europe'']),
        (''BRAND_OWNER_INTERNATIONAL'', [Str ''O1'']),
        (''BOI_VALIDATED'', [Str ''O1'']), (''BRAND1_VALIDATED'', [Str ''Acme'']),
        (''GBE_VALIDATED'', [Str ''Acme Europe'']), (''BRAND_1_CLEAN'', [Str ''Acme'']),
        (''SG_B1'', [Str ''EMEA Acme''])]"
  by (simp add: clean_and_merge_supergroup_def getitem_def setitem_def has_column_def ebind_def
      astype_str_def str_extract_def str_replace_trailing_def at_dollar_def series_add_def
      add_cells_def add_str_def)

lemma example_generate:
  "generate_boi_suggest
     [(''SUPER_GROUP'', [Str ''EMEA'']), (''BRAND_VALIDATED'', [Str ''O1;Acme;Acme Europe'']),
      (''BRAND_OWNER_INTERNATIONAL'', [Str ''O1'']),
      (''BOI_VALIDATED'', [Str ''O1'']), (''BRAND1_VALIDATED'', [Str ''Acme'']),
      (''GBE_VALIDATED'', [Str ''Acme Europe'']), (''BRAND_1_CLEAN'', [Str ''Acme'']),
      (''SG_B1'', [Str ''EMEA Acme''])] =
   Inr [(''SG_B1'', [Str ''EMEA Acme'']), (''BOI_SUGGEST'', [Str ''O1''])]"
  by (simp add: generate_boi_suggest_def getitem_def ebind_def valid_pairs_def
      List.map_filter_simps both_present_def groupby_size_def sort_values_def)

lemma example_merge:
  "merge_boi_suggest
     [(''SUPER_GROUP'', [Str ''EMEA'']), (''BRAND_1'', [Str ''Acme'']),
      (''BRAND1_VALIDATED'', [Str ''Acme'']), (''BRAND_1_CLEAN'', [Str ''Acme'']),
      (''SG_B1'', [Str ''EMEA Acme''])]
     [(''SG_B1'', [Str ''EMEA Acme'']), (''BOI_SUGGEST'', [Str ''O1''])] =
   Inr example_merged"
  by (simp add: example_merged_def merge_boi_suggest_def merge_left_def getitem_def setitem_def
      has_column_def ebind_def join_index_def take_left_def take_right_def fillna_def isna_def)

lemma example_spacing_fix:
  "apply_spacing_fix example_merged = Inl (KeyError ''BRAND_VALIDATED'')"
  by (simp add: example_merged_def apply_spacing_fix_def getitem_def ebind_def)

lemma example_gbe:
  "apply_gbe_validation example_merged =
     Inr (example_merged @ [(''GBE_STATUS'', [Str ''Missing Data''])])"
  by (simp add: example_merged_def apply_gbe_validation_def rows_of_def nrows_def
      check_gbe_match_def row_get_def setitem_def has_column_def ebind_def)

text \<open>
  Claim C1. With a primary table of \<^verbatim>\<open>SUPER_GROUP\<close> = EMEA and \<^verbatim>\<open>BRAND_1\<close> = Acme only, and a
  reference table of \<^verbatim>\<open>SUPER_GROUP\<close> = EMEA, \<^verbatim>\<open>BRAND_VALIDATED\<close> = O1;Acme;Acme Europe and
  owner O1, the stages up to the Suggestion Merger succeed and give the row the suggested
  owner O1, and the GBE check on that row answers \<^verbatim>\<open>Missing Data\<close>, as the claim says. The
  pipeline nevertheless does not complete: the Spacing Fix reads \<^verbatim>\<open>BRAND_VALIDATED\<close> of
  the primary table, which a table on the \<^verbatim>\<open>BRAND_1\<close> path does not have, and raises.
\<close>

theorem pipeline_example_raises_at_spacing_fix:
  "ebind (split_brand_columns example_eu) (\<lambda>eu1.
     ebind (split_brand_columns example_ogrds) (\<lambda>ogrds1.
     ebind (clean_and_merge_supergroup eu1) (\<lambda>eu2.
     ebind (clean_and_merge_supergroup ogrds1) (\<lambda>ogrds2.
     ebind (generate_boi_suggest ogrds2) (\<lambda>boi_suggest_df.
     merge_boi_suggest eu2 boi_suggest_df))))) = Inr example_merged \<and>
   getitem example_merged ''BOI_SUGGEST'' = Inr [Str ''O1''] \<and>
   apply_gbe_validation example_merged =
     Inr (example_merged @ [(''GBE_STATUS'', [Str ''Missing Data''])]) \<and>
   apply_spacing_fix example_merged = Inl (KeyError ''BRAND_VALIDATED'') \<and>
   process_pipeline example_eu example_ogrds = Inl (KeyError ''BRAND_VALIDATED'')"
proof -
  have eu1: "split_brand_columns example_eu =
     Inr [(''SUPER_GROUP'', [Str ''EMEA'']), (''BRAND_1'', [Str ''Acme'']),
          (''BRAND1_VALIDATED'', [Str ''Acme''])]"
    unfolding example_eu_def by (rule c1_split_eu)
  have stages: "ebind (split_brand_columns example_eu) (\<lambda>eu1.
     ebind (split_brand_columns example_ogrds) (\<lambda>ogrds1.
     ebind (clean_and_merge_supergroup eu1) (\<lambda>eu2.
     ebind (clean_and_merge_supergroup ogrds1) (\<lambda>ogrds2.
     ebind (generate_boi_suggest ogrds2) (\<lambda>boi_suggest_df.
     merge_boi_suggest eu2 boi_suggest_df))))) = Inr example_merged"
    unfolding eu1 example_split_ogrds
    by (simp add: ebind_def c1_clean_eu example_clean_ogrds example_generate example_merge)
  have boi: "getitem example_merged ''BOI_SUGGEST'' = Inr [Str ''O1'']"
    by (simp add: example_merged_def getitem_def)
  have whole: "process_pipeline example_eu example_ogrds = Inl (KeyError ''BRAND_VALIDATED'')"
    unfolding process_pipeline_def eu1 example_split_ogrds
    by (simp add: ebind_def c1_clean_eu example_clean_ogrds example_generate example_merge
        example_spacing_fix)
  from stages boi example_gbe example_spacing_fix whole show ?thesis by blast
qed

section \<open>The Ownership Suggester\<close>

lemma both_present_Some: "both_present p = Some (k, ow) \<longleftrightarrow> p = (Str k, Str ow)"
  by (cases p) (auto simp: both_present_def split: cell.splits)

lemma map_filter_present_set:
  "(k, ow) \<in> set (List.map_filter both_present xs) \<longleftrightarrow> (Str k, Str ow) \<in> set xs"
proof (induction xs)
  case Nil
  show ?case by (simp add: List.map_filter_simps)
next
  case (Cons x xs)
  show ?case
  proof (cases "both_present x")
    case None
    then have "x \<noteq> (Str k, Str ow)" by (auto simp: both_present_def)
    with None Cons show ?thesis by (simp add: List.map_filter_simps)
  next
    case (Some q)
    have "q = (k, ow) \<longleftrightarrow> x = (Str k, Str ow)"
      using Some both_present_Some [of x k ow] by auto
    with Some Cons show ?thesis by (auto simp: List.map_filter_simps)
  qed
qed

lemma valid_pairs_set: "(k, ow) \<in> set (valid_pairs ks os) \<longleftrightarrow> (Str k, Str ow) \<in> set (zip ks os)"
  by (simp add: valid_pairs_def map_filter_present_set)




lemma groupby_size_mem:
  "r \<in> set (groupby_size prs) \<longleftrightarrow> fst r \<in> set prs \<and> snd r = count_list prs (fst r)"
  by (cases r) (auto simp: groupby_size_def)

lemma drop_duplicates_subset: "r \<in> set (drop_duplicates seen rs) \<Longrightarrow> r \<in> set rs"
  by (induction rs arbitrary: seen) (auto split: if_splits)

lemma drop_duplicates_unseen:
  "r \<in> set (drop_duplicates seen rs) \<Longrightarrow> fst (fst r) \<notin> set seen"
proof (induction rs arbitrary: seen)
  case Nil
  then show ?case by simp
next
  case (Cons x rs)
  show ?case
  proof (cases "fst (fst x) \<in> set seen")
    case True
    with Cons.prems have "r \<in> set (drop_duplicates seen rs)" by simp
    then show ?thesis by (rule Cons.IH)
  next
    case False
    with Cons.prems have "r = x \<or> r \<in> set (drop_duplicates (fst (fst x) # seen) rs)" by simp
    then show ?thesis
    proof
      assume "r = x"
      with False show ?thesis by simp
    next
      assume "r \<in> set (drop_duplicates (fst (fst x) # seen) rs)"
      then have "fst (fst r) \<notin> set (fst (fst x) # seen)" by (rule Cons.IH)
      then show ?thesis by simp
    qed
  qed
qed

lemma drop_duplicates_distinct: "distinct (map (\<lambda>r. fst (fst r)) (drop_duplicates seen rs))"
proof (induction rs arbitrary: seen)
  case Nil
  show ?case by simp
next
  case (Cons x rs)
  have "fst (fst x) \<notin> (\<lambda>r. fst (fst r)) ` set (drop_duplicates (fst (fst x) # seen) rs)"
    using drop_duplicates_unseen [of _ "fst (fst x) # seen" rs] by fastforce
  with Cons show ?case by simp
qed

lemma drop_duplicates_find:
  "k \<notin> set seen \<Longrightarrow>
   (r \<in> set (drop_duplicates seen rs) \<and> fst (fst r) = k) \<longleftrightarrow>
   find (\<lambda>x. fst (fst x) = k) rs = Some r"
proof (induction rs arbitrary: seen)
  case Nil
  show ?case by simp
next
  case (Cons x rs)
  show ?case
  proof (cases "fst (fst x) \<in> set seen")
    case True
    with Cons.prems have "fst (fst x) \<noteq> k" by auto
    with True Cons.IH [OF Cons.prems] show ?thesis by simp
  next
    case False
    show ?thesis
    proof (cases "fst (fst x) = k")
      case True
      have "r \<notin> set (drop_duplicates (k # seen) rs) \<or> fst (fst r) \<noteq> k"
        using drop_duplicates_unseen [of r "k # seen" rs] by auto
      moreover have "drop_duplicates seen (x # rs) = x # drop_duplicates (k # seen) rs"
        using True False by simp
      moreover have "find (\<lambda>x. fst (fst x) = k) (x # rs) = Some x"
        using True by simp
      ultimately show ?thesis using True by auto
    next
      case ne: False
      with Cons.prems have "k \<notin> set (fst (fst x) # seen)" by auto
      from Cons.IH [OF this] ne False show ?thesis by auto
    qed
  qed
qed


lemma find_exists: "\<exists>x\<in>set xs. P x \<Longrightarrow> \<exists>r. find P xs = Some r"
  by (induction xs) auto



lemma sort_values_set: "set (sort_values rs) = set rs"
  by (simp add: sort_values_def)

lemma firsts_mem:
  assumes "r \<in> set (drop_duplicates [] (sort_values (groupby_size prs)))"
  shows "fst r \<in> set prs \<and> snd r = count_list prs (fst r)"
proof -
  from assms have "r \<in> set (sort_values (groupby_size prs))" by (rule drop_duplicates_subset)
  then have "r \<in> set (groupby_size prs)" by (simp only: sort_values_set)
  then show ?thesis by (simp add: groupby_size_mem)
qed

lemma firsts_key:
  assumes "(k, ow) \<in> set prs"
  shows "\<exists>r. r \<in> set (drop_duplicates [] (sort_values (groupby_size prs))) \<and>
             fst (fst r) = k \<and>
             find (\<lambda>x. fst (fst x) = k) (sort_values (groupby_size prs)) = Some r"
proof -
  have "((k, ow), count_list prs (k, ow)) \<in> set (sort_values (groupby_size prs))"
    using assms by (simp add: sort_values_set groupby_size_mem)
  moreover have "fst (fst ((k, ow), count_list prs (k, ow))) = k" by simp
  ultimately have "\<exists>x\<in>set (sort_values (groupby_size prs)). fst (fst x) = k"
    by (rule rev_bexI)
  then have "\<exists>r. find (\<lambda>x. fst (fst x) = k) (sort_values (groupby_size prs)) = Some r"
    by (rule find_exists)
  then obtain r where r: "find (\<lambda>x. fst (fst x) = k) (sort_values (groupby_size prs)) = Some r" ..
  have "k \<notin> set ([] :: string list)" by simp
  from drop_duplicates_find [OF this, of r "sort_values (groupby_size prs)"] r
  have "r \<in> set (drop_duplicates [] (sort_values (groupby_size prs))) \<and> fst (fst r) = k"
    by simp
  with r show ?thesis by blast
qed

lemma generate_boi_suggest_eq:
  assumes "getitem df ''SG_B1'' = Inr ks" and "getitem df ''BRAND_OWNER_INTERNATIONAL'' = Inr os"
  shows "generate_boi_suggest df =
           Inr [(''SG_B1'', map (\<lambda>r. Str (fst (fst r)))
                   (drop_duplicates [] (sort_values (groupby_size (valid_pairs ks os))))),
                (''BOI_SUGGEST'', map (\<lambda>r. Str (snd (fst r)))
                   (drop_duplicates [] (sort_values (groupby_size (valid_pairs ks os)))))]"
  using assms by (simp add: generate_boi_suggest_def ebind_def Let_def)

lemma distinct_suggestion_keys:
  "distinct (map (\<lambda>r. Str (fst (fst r))) (drop_duplicates [] rs))"
proof -
  have "distinct (map Str ys)" if "distinct ys" for ys
    using that by (simp add: distinct_map inj_on_def)
  from this [OF drop_duplicates_distinct [of "[]" rs]] show ?thesis
    by (simp add: comp_def)
qed






text \<open>
  Claim C6, as amended. Rows of the reference table whose Join Key is null belong to no
  group: the keys of the Suggestion Table are exactly the non-null Join Keys that occur with
  a non-null owner, and no entry is keyed by null.
\<close>

theorem suggester_drops_null_keys:
  assumes "getitem df ''SG_B1'' = Inr ks" and "getitem df ''BRAND_OWNER_INTERNATIONAL'' = Inr os"
  shows "\<exists>sk so. generate_boi_suggest df = Inr [(''SG_B1'', sk), (''BOI_SUGGEST'', so)] \<and>
           Null \<notin> set sk \<and>
           (\<forall>k. Str k \<in> set sk \<longleftrightarrow> (\<exists>ow. (Str k, Str ow) \<in> set (zip ks os)))"
proof -
  let ?prs = "valid_pairs ks os"
  let ?F = "drop_duplicates [] (sort_values (groupby_size ?prs))"
  let ?sk = "map (\<lambda>r. Str (fst (fst r))) ?F"
  let ?so = "map (\<lambda>r. Str (snd (fst r))) ?F"
  have g: "generate_boi_suggest df = Inr [(''SG_B1'', ?sk), (''BOI_SUGGEST'', ?so)]"
    using assms by (rule generate_boi_suggest_eq)
  have n: "Null \<notin> set ?sk" by auto
  have keys: "Str k \<in> set ?sk \<longleftrightarrow> (\<exists>ow. (Str k, Str ow) \<in> set (zip ks os))" for k
  proof
    assume "Str k \<in> set ?sk"
    then obtain r where r: "r \<in> set ?F" "fst (fst r) = k" by auto
    from firsts_mem [OF r(1)] have "fst r \<in> set ?prs" by simp
    moreover have "fst r = (k, snd (fst r))" using r(2) by (simp add: prod_eq_iff)
    ultimately have "(k, snd (fst r)) \<in> set ?prs" by simp
    then show "\<exists>ow. (Str k, Str ow) \<in> set (zip ks os)" by (auto simp: valid_pairs_set)
  next
    assume "\<exists>ow. (Str k, Str ow) \<in> set (zip ks os)"
    then obtain ow where "(k, ow) \<in> set ?prs" by (auto simp: valid_pairs_set)
    from firsts_key [OF this] obtain r where r: "r \<in> set ?F" "fst (fst r) = k" by blast
    from r(1) have "Str (fst (fst r)) \<in> set ?sk" by simp
    with r(2) show "Str k \<in> set ?sk" by simp
  qed
  show ?thesis
  proof (intro exI conjI)
    show "generate_boi_suggest df = Inr [(''SG_B1'', ?sk), (''BOI_SUGGEST'', ?so)]" by (rule g)
    show "Null \<notin> set ?sk" by (rule n)
    show "\<forall>k. Str k \<in> set ?sk \<longleftrightarrow> (\<exists>ow. (Str k, Str ow) \<in> set (zip ks os))"
      using keys by blast
  qed
qed

theorem suggester_drops_null_keys_witness:
  "\<exists>sk so. generate_boi_suggest
             [(''SG_B1'', [Null, Str ''K1'']), (''BRAND_OWNER_INTERNATIONAL'', [Str ''X'', Str ''Y''])] =
           Inr [(''SG_B1'', sk), (''BOI_SUGGEST'', so)] \<and>
           Null \<notin> set sk \<and> Str ''K1'' \<in> set sk"
proof -
  let ?ks = "[Null, Str ''K1'']"
  let ?os = "[Str ''X'', Str ''Y'']"
  let ?df = "[(''SG_B1'', ?ks), (''BRAND_OWNER_INTERNATIONAL'', ?os)]"
  have a: "getitem ?df ''SG_B1'' = Inr ?ks" and b: "getitem ?df ''BRAND_OWNER_INTERNATIONAL'' = Inr ?os"
    by (simp_all add: getitem_def)
  from suggester_drops_null_keys [OF a b]
  obtain sk so where g: "generate_boi_suggest ?df = Inr [(''SG_B1'', sk), (''BOI_SUGGEST'', so)]"
    and n: "Null \<notin> set sk"
    and k: "\<forall>k. Str k \<in> set sk \<longleftrightarrow> (\<exists>ow. (Str k, Str ow) \<in> set (zip ?ks ?os))"
    by blast
  have "\<exists>ow. (Str ''K1'', Str ow) \<in> set (zip ?ks ?os)"
    by (rule exI [of _ "''Y''"]) simp
  with k have "Str ''K1'' \<in> set sk" by blast
  with g n show ?thesis by blast
qed

text \<open>
  Claim C6 as stated fails: a reference row with a null Join Key leaves no entry in the
  Suggestion Table.
\<close>

theorem suggester_no_null_entry:
  "generate_boi_suggest
     [(''SG_B1'', [Null, Str ''K1'']), (''BRAND_OWNER_INTERNATIONAL'', [Str ''X'', Str ''Y''])] =
   Inr [(''SG_B1'', [Str ''K1'']), (''BOI_SUGGEST'', [Str ''Y''])]"
  by (simp add: generate_boi_suggest_def getitem_def ebind_def valid_pairs_def
      List.map_filter_simps both_present_def groupby_size_def sort_values_def)

section \<open>The Suggestion Merger\<close>

lemma filter_nth_absent:
  "v \<notin> set rk \<Longrightarrow> filter (\<lambda>j. rk ! j = v) [0..<length rk] = []"
  by (auto simp: filter_empty_conv)

lemma filter_nth_distinct:
  assumes "distinct rk"
  shows "length (filter (\<lambda>j. rk ! j = v) [0..<length rk]) \<le> 1"
proof (rule ccontr)
  let ?js = "filter (\<lambda>j. rk ! j = v) [0..<length rk]"
  assume "\<not> length ?js \<le> 1"
  then obtain a b cs where js: "?js = a # b # cs"
    by (cases ?js; cases "tl ?js") auto
  have d: "distinct ?js" by simp
  with js have ab: "a \<noteq> b" by simp
  have "a \<in> set ?js" "b \<in> set ?js" using js by simp_all
  then have lt: "a < length rk" "b < length rk" and eq: "rk ! a = rk ! b" by auto
  from nth_eq_iff_index_eq [OF assms lt] eq have "a = b" by simp
  with ab show False by contradiction
qed

lemma concat_singletons: "\<forall>x\<in>set xs. f x = [g x] \<Longrightarrow> concat (map f xs) = map g xs"
  by (induction xs) auto

lemma join_index_distinct:
  assumes "distinct rk"
  shows "join_index lk rk =
           map (\<lambda>i. (i, case filter (\<lambda>j. rk ! j = lk ! i) [0..<length rk] of
                          [] \<Rightarrow> None | j # _ \<Rightarrow> Some j))
               [0..<length lk]"
proof -
  let ?f = "\<lambda>i. case filter (\<lambda>j. rk ! j = lk ! i) [0..<length rk] of
                   [] \<Rightarrow> [(i, None)] | js \<Rightarrow> map (\<lambda>j. (i, Some j)) js"
  let ?g = "\<lambda>i. (i, case filter (\<lambda>j. rk ! j = lk ! i) [0..<length rk] of
                        [] \<Rightarrow> None | j # _ \<Rightarrow> Some j)"
  have "?f i = [?g i]" for i
  proof (cases "filter (\<lambda>j. rk ! j = lk ! i) [0..<length rk]")
    case Nil
    then show ?thesis by simp
  next
    case (Cons j js)
    with filter_nth_distinct [OF assms, of "lk ! i"] have "js = []" by simp
    with Cons show ?thesis by simp
  qed
  then have "concat (map ?f [0..<length lk]) = map ?g [0..<length lk]"
    by (intro concat_singletons) simp
  then show ?thesis by (simp add: join_index_def)
qed

lemma getitem_append_new:
  assumes "\<not> has_column c df"
  shows "getitem (df @ [(c, s)]) c = Inr s"
proof -
  from assms have "filter (\<lambda>p. fst p = c) df = []" by (simp add: filter_label_Nil)
  then show ?thesis by (simp add: getitem_def)
qed

lemma map_replace_absent:
  "c \<notin> set (map fst df) \<Longrightarrow> map (\<lambda>p. if fst p = c then (c, s) else p) df = df"
  by (induction df) auto

lemma setitem_append_new:
  "\<not> has_column c df \<Longrightarrow> setitem (df @ [(c, s)]) c s' = df @ [(c, s')]"
  by (simp add: setitem_def has_column_def map_replace_absent)

lemma generate_boi_suggest_shape:
  assumes "generate_boi_suggest df = Inr sugg"
  shows "\<exists>sk so. sugg = [(''SG_B1'', sk), (''BOI_SUGGEST'', so)] \<and> distinct sk \<and>
                 Null \<notin> set sk \<and> length so = length sk"
proof -
  from assms obtain ks os where "getitem df ''SG_B1'' = Inr ks"
    "getitem df ''BRAND_OWNER_INTERNATIONAL'' = Inr os"
    by (auto simp: generate_boi_suggest_def ebind_def split: sum.splits)
  note eq = generate_boi_suggest_eq [OF this]
  let ?F = "drop_duplicates [] (sort_values (groupby_size (valid_pairs ks os)))"
  let ?sk = "map (\<lambda>r. Str (fst (fst r))) ?F"
  let ?so = "map (\<lambda>r. Str (snd (fst r))) ?F"
  show ?thesis
  proof (intro exI conjI)
    show "sugg = [(''SG_B1'', ?sk), (''BOI_SUGGEST'', ?so)]" using eq assms by simp
    show "distinct ?sk" by (rule distinct_suggestion_keys)
    show "Null \<notin> set ?sk" by auto
    show "length ?so = length ?sk" by simp
  qed
qed

lemma merge_boi_suggest_eq:
  assumes key: "getitem eu ''SG_B1'' = Inr lk"
      and new: "\<not> has_column ''BOI_SUGGEST'' eu"
  shows "merge_boi_suggest eu [(''SG_B1'', sk), (''BOI_SUGGEST'', so)] =
           Inr (map (\<lambda>p. (fst p, take_left (join_index lk sk) (snd p))) eu @
                [(''BOI_SUGGEST'',
                  map (fillna ''SG_B1 not present in OGRDS'') (take_right (join_index lk sk) so))])"
proof -
  let ?idx = "join_index lk sk"
  let ?left = "map (\<lambda>p. (fst p, take_left ?idx (snd p))) eu"
  have rk: "getitem [(''SG_B1'', sk), (''BOI_SUGGEST'', so)] ''SG_B1'' = Inr sk"
    by (simp add: getitem_def)
  have others: "filter (\<lambda>p. fst p \<noteq> ''SG_B1'') [(''SG_B1'', sk), (''BOI_SUGGEST'', so)] =
                  [(''BOI_SUGGEST'', so)]" by simp
  have noclash: "\<And>p. p \<in> set eu \<Longrightarrow>
       \<not> (fst p \<noteq> ''SG_B1'' \<and> has_column (fst p) eu \<and> has_column (fst p) [(''BOI_SUGGEST'', so)])"
    using new by (force simp: has_column_def)
  have l: "map (\<lambda>p. (if fst p \<noteq> ''SG_B1'' \<and> has_column (fst p) eu \<and>
                          has_column (fst p) [(''BOI_SUGGEST'', so)]
                       then fst p @ ''_x'' else fst p, take_left ?idx (snd p))) eu = ?left"
    using noclash by (intro map_cong) auto
  have m: "merge_left eu [(''SG_B1'', sk), (''BOI_SUGGEST'', so)] ''SG_B1'' =
             Inr (?left @ [(''BOI_SUGGEST'', take_right ?idx so)])"
    unfolding merge_left_def key rk ebind_def others Let_def
    using new l by (simp add: has_column_def)
  have nl: "\<not> has_column ''BOI_SUGGEST'' ?left"
    using new by (simp add: has_column_def comp_def)
  show ?thesis
    unfolding merge_boi_suggest_def m
    by (simp add: ebind_def getitem_append_new [OF nl] setitem_append_new [OF nl])
qed

text \<open>
  Claim C5. Let the Suggestion Table come from the Ownership Suggester and let the primary
  table have a Join Key column and no suggested-owner column yet. Then the Suggestion Merger
  succeeds, the suggested-owner column has one cell for each primary row, and every row
  whose Join Key is null or is the key of no Suggestion Entry holds exactly the sentinel
  \<^verbatim>\<open>SG_B1 not present in OGRDS\<close>.
\<close>

theorem merge_unmatched_sentinel:
  assumes gen: "generate_boi_suggest ogrds = Inr sugg"
      and key: "getitem eu ''SG_B1'' = Inr lk"
      and new: "\<not> has_column ''BOI_SUGGEST'' eu"
  shows "\<exists>out bs sk. merge_boi_suggest eu sugg = Inr out \<and>
           getitem out ''BOI_SUGGEST'' = Inr bs \<and> getitem sugg ''SG_B1'' = Inr sk \<and>
           length bs = length lk \<and>
           (\<forall>i<length lk. lk ! i = Null \<or> lk ! i \<notin> set sk \<longrightarrow>
              bs ! i = Str ''SG_B1 not present in OGRDS'')"
proof -
  from generate_boi_suggest_shape [OF gen]
  obtain sk so where sugg: "sugg = [(''SG_B1'', sk), (''BOI_SUGGEST'', so)]"
    and d: "distinct sk" and n: "Null \<notin> set sk" by blast
  let ?idx = "join_index lk sk"
  let ?left = "map (\<lambda>p. (fst p, take_left ?idx (snd p))) eu"
  let ?bs = "map (fillna ''SG_B1 not present in OGRDS'') (take_right ?idx so)"
  have m: "merge_boi_suggest eu sugg = Inr (?left @ [(''BOI_SUGGEST'', ?bs)])"
    unfolding sugg using key new by (rule merge_boi_suggest_eq)
  have nl: "\<not> has_column ''BOI_SUGGEST'' ?left"
    using new by (simp add: has_column_def comp_def)
  have g: "getitem (?left @ [(''BOI_SUGGEST'', ?bs)]) ''BOI_SUGGEST'' = Inr ?bs"
    using nl by (rule getitem_append_new)
  have gs: "getitem sugg ''SG_B1'' = Inr sk" by (simp add: sugg getitem_def)
  have idx: "?idx = map (\<lambda>i. (i, case filter (\<lambda>j. sk ! j = lk ! i) [0..<length sk] of
                          [] \<Rightarrow> None | j # _ \<Rightarrow> Some j)) [0..<length lk]"
    using d by (rule join_index_distinct)
  have len: "length ?bs = length lk" by (simp add: take_right_def idx)
  have un: "?bs ! i = Str ''SG_B1 not present in OGRDS''"
    if i: "i < length lk" and u: "lk ! i = Null \<or> lk ! i \<notin> set sk" for i
  proof -
    from u n have "lk ! i \<notin> set sk" by auto
    then have "filter (\<lambda>j. sk ! j = lk ! i) [0..<length sk] = []" by (rule filter_nth_absent)
    then have "take_right ?idx so ! i = Null"
      using i by (simp add: take_right_def idx)
    moreover have "i < length (take_right ?idx so)" using i by (simp add: take_right_def idx)
    ultimately show ?thesis by (simp add: fillna_def isna_def)
  qed
  show ?thesis
  proof (intro exI conjI)
    show "merge_boi_suggest eu sugg = Inr (?left @ [(''BOI_SUGGEST'', ?bs)])" by (rule m)
    show "getitem (?left @ [(''BOI_SUGGEST'', ?bs)]) ''BOI_SUGGEST'' = Inr ?bs" by (rule g)
    show "getitem sugg ''SG_B1'' = Inr sk" by (rule gs)
    show "length ?bs = length lk" by (rule len)
    show "\<forall>i<length lk. lk ! i = Null \<or> lk ! i \<notin> set sk \<longrightarrow>
              ?bs ! i = Str ''SG_B1 not present in OGRDS''"
      using un by blast
  qed
qed


theorem merge_unmatched_sentinel_witness:
  "\<exists>out bs. merge_boi_suggest [(''SG_B1'', [Str ''K1'', Null, Str ''K2''])]
                [(''SG_B1'', [Str ''K1'']), (''BOI_SUGGEST'', [Str ''X''])] = Inr out \<and>
             getitem out ''BOI_SUGGEST'' = Inr bs \<and> length bs = 3 \<and>
             bs ! 1 = Str ''SG_B1 not present in OGRDS'' \<and>
             bs ! 2 = Str ''SG_B1 not present in OGRDS''"
proof -
  let ?ogrds = "[(''SG_B1'', [Str ''K1'']), (''BRAND_OWNER_INTERNATIONAL'', [Str ''X''])]"
  let ?sugg = "[(''SG_B1'', [Str ''K1'']), (''BOI_SUGGEST'', [Str ''X''])]"
  let ?lk = "[Str ''K1'', Null, Str ''K2'']"
  let ?eu = "[(''SG_B1'', ?lk)]"
  have gen: "generate_boi_suggest ?ogrds = Inr ?sugg"
    by (simp add: generate_boi_suggest_def getitem_def ebind_def valid_pairs_def
        List.map_filter_simps both_present_def groupby_size_def sort_values_def)
  have key: "getitem ?eu ''SG_B1'' = Inr ?lk" by (simp add: getitem_def)
  have new: "\<not> has_column ''BOI_SUGGEST'' ?eu" by (simp add: has_column_def)
  from merge_unmatched_sentinel [OF gen key new]
  obtain out bs sk where m: "merge_boi_suggest ?eu ?sugg = Inr out"
    and g: "getitem out ''BOI_SUGGEST'' = Inr bs"
    and gs: "getitem ?sugg ''SG_B1'' = Inr sk"
    and len: "length bs = length ?lk"
    and un: "\<forall>i<length ?lk. ?lk ! i = Null \<or> ?lk ! i \<notin> set sk \<longrightarrow>
               bs ! i = Str ''SG_B1 not present in OGRDS''"
    by blast
  from gs have sk: "sk = [Str ''K1'']" by (simp add: getitem_def)
  have "(1::nat) < length ?lk" "?lk ! 1 = Null \<or> ?lk ! 1 \<notin> set sk" by simp_all
  with un have b1: "bs ! 1 = Str ''SG_B1 not present in OGRDS''" by blast
  have "(2::nat) < length ?lk" "?lk ! 2 = Null \<or> ?lk ! 2 \<notin> set sk" by (simp_all add: sk)
  with un have b2: "bs ! 2 = Str ''SG_B1 not present in OGRDS''" by blast
  from m g len b1 b2 show ?thesis by auto
qed

end
